theory Spec2Isabelle
  imports Complex_Main "HOL-Library.Sublist"
begin

section \<open>Credential resolution at configuration load (env.ts)\<close>

text \<open>
  \<^verbatim>\<open>resolveBizCredentials\<close> receives the parsed environment, in which every variable
  is either a non-empty trimmed string or \<^verbatim>\<open>undefined\<close>. Only the four credential
  variables are read, so the parsed data is modelled by a record of four optional strings.
\<close>

record env_data =
  YELP_BUSINESS_USERNAME :: "string option"
  YELP_BUSINESS_PASSWORD :: "string option"
  YELP_BIZ_USERNAME :: "string option"
  YELP_BIZ_PASSWORD :: "string option"

datatype cred_source = SRC_YELP_BUSINESS | SRC_YELP_BIZ

record credentials =
  username :: string
  password :: string

record BizCreds = credentials +
  source :: cred_source

text \<open>The three \<^verbatim>\<open>throw new Error(...)\<close> sites of the function, in source order.\<close>

datatype config_error =
  IncompleteBusinessCredentials
  | IncompleteBizCredentials
  | AmbiguousCredentials "cred_source list"

definition business_candidate :: "env_data \<Rightarrow> BizCreds list" where
  "business_candidate d =
     (case (YELP_BUSINESS_USERNAME d, YELP_BUSINESS_PASSWORD d) of
        (Some u, Some p) \<Rightarrow> [\<lparr>username = u, password = p, source = SRC_YELP_BUSINESS\<rparr>]
      | _ \<Rightarrow> [])"

definition biz_candidate :: "env_data \<Rightarrow> BizCreds list" where
  "biz_candidate d =
     (case (YELP_BIZ_USERNAME d, YELP_BIZ_PASSWORD d) of
        (Some u, Some p) \<Rightarrow> [\<lparr>username = u, password = p, source = SRC_YELP_BIZ\<rparr>]
      | _ \<Rightarrow> [])"

definition resolveBizCredentials :: "env_data \<Rightarrow> config_error + BizCreds option" where
  "resolveBizCredentials d =
     (let hasBusinessUsername = (YELP_BUSINESS_USERNAME d \<noteq> None);
          hasBusinessPassword = (YELP_BUSINESS_PASSWORD d \<noteq> None)
      in if hasBusinessUsername \<noteq> hasBusinessPassword then Inl IncompleteBusinessCredentials
         else
           let candidates1 = business_candidate d;
               hasBizUsername = (YELP_BIZ_USERNAME d \<noteq> None);
               hasBizPassword = (YELP_BIZ_PASSWORD d \<noteq> None)
           in if hasBizUsername \<noteq> hasBizPassword then Inl IncompleteBizCredentials
              else
                let candidates = candidates1 @ biz_candidate d
                in if length candidates = 0 then Inr None
                   else if length candidates > 1
                     then Inl (AmbiguousCredentials (map source candidates))
                   else Inr (Some (hd candidates)))"

section \<open>The browser, the file system and the clock as an environment\<close>

text \<open>
  Every interaction of the program with Playwright, with the file system and with the
  clock is a \<^emph>\<open>call\<close>. The program's state carries the chronological list of the calls
  made so far; the environment answers a call as a function of that whole list (the call
  being answered is its last element). Nothing is assumed about the environment: the
  page may change between any two calls and any promise may reject.
\<close>

datatype 'a outcome = Rejects | Resolves 'a

datatype locator =
  Locator string
  | GetByRoleButtonLogIn
  | LocatorHasTextLogIn string

datatype wait_predicate = CaptchaGone | TwoFactorGone | UrlLeftLogin

datatype call =
  FsMkdir string
  | FsWriteFile string
  | DateNow
  | LaunchPersistentContext string nat
  | SetDefaultTimeout nat
  | SetDefaultNavigationTimeout nat
  | ContextPages
  | ContextNewPage
  | ContextClose
  | PageGoto string
  | PageUrl
  | PageTitle
  | PageContent
  | PageScreenshot string
  | PageWaitFor wait_predicate nat
  | LocatorCount locator
  | LocatorNthBoundingBox locator nat
  | LocatorFirstIsVisible locator
  | LocatorFirstFill locator string
  | LocatorFirstClick locator

text \<open>
  Bounding boxes carry JavaScript numbers; every finite double is a rational, and the
  code only compares them with 100.
\<close>

record box =
  width :: rat
  height :: rat

record world =
  ask_unit :: "call list \<Rightarrow> unit outcome"
  ask_bool :: "call list \<Rightarrow> bool outcome"
  ask_nat :: "call list \<Rightarrow> nat outcome"
  ask_box :: "call list \<Rightarrow> box option outcome"
  ask_string :: "call list \<Rightarrow> string outcome"
  sync_string :: "call list \<Rightarrow> string"
  sync_bool :: "call list \<Rightarrow> bool"
  URL_host :: "string \<Rightarrow> string option"
  path_join :: "string list \<Rightarrow> string"
  zod_url :: "string \<Rightarrow> bool"

text \<open>
  \<open>URL_host u\<close> stands for \<^verbatim>\<open>new URL(u).host\<close> (\<open>None\<close> when the constructor throws),
  \<open>path_join\<close> for Node's \<^verbatim>\<open>path.join\<close>, \<open>zod_url\<close> for zod's \<^verbatim>\<open>z.string().url()\<close>
  check: platform and library functions, taken as parameters.
\<close>

datatype error =
  CallRejected call
  | SnapshotFailed call
  | NotStarted
  | InvalidURL string
  | LoginVisibleMissingCredentials string
  | LoginFieldsMissing string
  | LoginSubmitFailed string error
  | LoginDidNotSucceed string
  | CaptchaStillPresent string
  | TwoFactorStillPresent string
  | BlockedUnavailable string string string
  | RedirectedToMarketing string

text \<open>
  \<open>CallRejected c\<close> is the rejection of the call \<open>c\<close>, propagated unchanged;
  \<open>SnapshotFailed c\<close> is the same, for a call made inside \<^verbatim>\<open>captureDebugArtifacts\<close>.
  \<open>NotStarted\<close> is the error of \<^verbatim>\<open>page()\<close>; the others are the \<^verbatim>\<open>throw new Error\<close> sites of
  yelpBizClient.ts, whose messages end in the snapshot directory they carry.
\<close>

record client =
  context_set :: bool
  page_set :: bool
  calls :: "call list"

type_synonym 'a io = "client \<Rightarrow> (error + 'a) \<times> client"

definition return :: "'a \<Rightarrow> 'a io" where
  "return x s = (Inr x, s)"

definition throw :: "error \<Rightarrow> 'a io" where
  "throw e s = (Inl e, s)"

definition bind :: "'a io \<Rightarrow> ('a \<Rightarrow> 'b io) \<Rightarrow> 'b io" where
  "bind m f s = (case m s of (Inl e, s') \<Rightarrow> (Inl e, s') | (Inr x, s') \<Rightarrow> f x s')"

definition catch :: "'a io \<Rightarrow> (error \<Rightarrow> 'a io) \<Rightarrow> 'a io" where
  "catch m f s = (case m s of (Inl e, s') \<Rightarrow> f e s' | (Inr x, s') \<Rightarrow> (Inr x, s'))"

definition or_default :: "'a io \<Rightarrow> 'a \<Rightarrow> 'a io" where
  "or_default m d = catch m (\<lambda>_. return d)"

definition log_call :: "call \<Rightarrow> client \<Rightarrow> client" where
  "log_call c s = s\<lparr>calls := calls s @ [c]\<rparr>"

definition await :: "(call list \<Rightarrow> 'a outcome) \<Rightarrow> call \<Rightarrow> 'a io" where
  "await ask c s =
     (let s' = log_call c s
      in case ask (calls s') of
           Rejects \<Rightarrow> (Inl (CallRejected c), s')
         | Resolves x \<Rightarrow> (Inr x, s'))"

definition sync :: "(call list \<Rightarrow> 'a) \<Rightarrow> call \<Rightarrow> 'a io" where
  "sync ask c s = (let s' = log_call c s in (Inr (ask (calls s')), s'))"

text \<open>
  \<^verbatim>\<open>Promise.all([a, b, c])\<close>: all calls are started, in array order, before any is
  awaited; the result rejects when one of them does (the model reports the first in array
  order).
\<close>

definition all2 :: "'a io \<Rightarrow> 'b io \<Rightarrow> ('a \<times> 'b) io" where
  "all2 m1 m2 s =
     (case m1 s of (r1, s1) \<Rightarrow>
        (case m2 s1 of (r2, s2) \<Rightarrow>
           ((case r1 of Inl e \<Rightarrow> Inl e
             | Inr x \<Rightarrow> (case r2 of Inl e \<Rightarrow> Inl e | Inr y \<Rightarrow> Inr (x, y))), s2)))"

section \<open>Strings\<close>

text \<open>
  A \<open>char\<close> stands for a code unit below 256; \<^verbatim>\<open>trim\<close> and \<^verbatim>\<open>toLowerCase\<close> are modelled
  on that range (white space: TAB, LF, VT, FF, CR, space and NBSP; letters: A to Z).
\<close>

definition is_space :: "char \<Rightarrow> bool" where
  "is_space c = ((of_char c :: nat) \<in> {9, 10, 11, 12, 13, 32, 160})"

definition trim :: "string \<Rightarrow> string" where
  "trim s = rev (dropWhile is_space (rev (dropWhile is_space s)))"

definition lower_char :: "char \<Rightarrow> char" where
  "lower_char c =
     (let n = (of_char c :: nat) in if 65 \<le> n \<and> n \<le> 90 then char_of (n + 32) else c)"

definition toLowerCase :: "string \<Rightarrow> string" where
  "toLowerCase s = map lower_char s"

fun str_includes :: "string \<Rightarrow> string \<Rightarrow> bool" where
  "str_includes [] needle = (needle = [])"
| "str_includes (c # cs) needle = (prefix needle (c # cs) \<or> str_includes cs needle)"

definition is_alnum_lower :: "char \<Rightarrow> bool" where
  "is_alnum_lower c =
     (let n = (of_char c :: nat) in (97 \<le> n \<and> n \<le> 122) \<or> (48 \<le> n \<and> n \<le> 57))"

text \<open>\<^verbatim>\<open>replaceAll(/[^a-z0-9]+/g, "-")\<close>: the flag says that the scan is inside a run.\<close>

fun dash_runs :: "bool \<Rightarrow> string \<Rightarrow> string" where
  "dash_runs in_run [] = []"
| "dash_runs in_run (c # cs) =
     (if is_alnum_lower c then c # dash_runs False cs
      else if in_run then dash_runs True cs
      else CHR ''-'' # dash_runs True cs)"

definition strip_dashes :: "string \<Rightarrow> string" where
  "strip_dashes s =
     rev (dropWhile (\<lambda>c. c = CHR ''-'') (rev (dropWhile (\<lambda>c. c = CHR ''-'') s)))"

definition safeSegment :: "string \<Rightarrow> string" where
  "safeSegment v = take 80 (strip_dashes (dash_runs False (toLowerCase (trim v))))"

definition isoTimestampForPath :: "string \<Rightarrow> string" where
  "isoTimestampForPath ts =
     map (\<lambda>c. if c = CHR '':'' \<or> c = CHR ''.'' then CHR ''-'' else c) ts"

section \<open>Debug snapshot sink (debugArtifacts.ts)\<close>

text \<open>
  \<^verbatim>\<open>captureDebugArtifacts\<close> has no \<^verbatim>\<open>catch\<close>: a rejection of any of its calls rejects the
  capture. The bytes written to the files are not modelled, only the paths.
\<close>

definition in_snapshot :: "'a io \<Rightarrow> 'a io" where
  "in_snapshot m =
     catch m (\<lambda>e. throw (case e of CallRejected c \<Rightarrow> SnapshotFailed c | _ \<Rightarrow> e))"

definition captureDebugArtifacts ::
    "world \<Rightarrow> string \<Rightarrow> string \<Rightarrow> string option \<Rightarrow> string io" where
  "captureDebugArtifacts w artifactsDir label namespace =
     in_snapshot
       (bind (sync (sync_string w) DateNow) (\<lambda>now.
        let ns = (case namespace of None \<Rightarrow> ''yelp'' | Some n \<Rightarrow> n);
            dir = path_join w
                    [artifactsDir, ns, isoTimestampForPath now @ ''-'' @ safeSegment label]
        in bind (await (ask_unit w) (FsMkdir dir)) (\<lambda>_.
           bind (all2 (await (ask_string w) PageTitle)
                  (all2 (sync (sync_string w) PageUrl) (await (ask_string w) PageContent)))
             (\<lambda>_.
           bind (all2 (await (ask_unit w) (PageScreenshot (path_join w [dir, ''page.png''])))
                  (all2 (await (ask_unit w) (FsWriteFile (path_join w [dir, ''page.html''])))
                        (await (ask_unit w) (FsWriteFile (path_join w [dir, ''meta.json''])))))
             (\<lambda>_. return dir)))))"

section \<open>The client (yelpBizClient.ts)\<close>

record YelpBizClientOptions =
  artifactsDir :: string
  challengeTimeoutOpt :: "nat option"
  slowMoMs :: "nat option"
  userDataDir :: string

text \<open>The constructor's default: \<^verbatim>\<open>challengeTimeoutMs ?? 10 * 60_000\<close>.\<close>

definition challengeTimeoutMs :: "YelpBizClientOptions \<Rightarrow> nat" where
  "challengeTimeoutMs opts = (case challengeTimeoutOpt opts of None \<Rightarrow> 10 * 60000 | Some t \<Rightarrow> t)"

definition new_client :: client where
  "new_client = \<lparr>context_set = False, page_set = False, calls = []\<rparr>"

definition emailInput :: locator where
  \<open>emailInput =
     Locator ''input[data-testid="email"], input[name="email"], input#email, input[type="email"]''\<close>

definition passwordInput :: locator where
  \<open>passwordInput =
     Locator ''input[data-testid="password"], input[name="password"], input#password, input[type="password"]''\<close>

definition submitBySelector :: locator where
  \<open>submitBySelector = LocatorHasTextLogIn ''button[type="submit"], input[type="submit"]''\<close>

definition captchaIframes :: locator where
  \<open>captchaIframes =
     Locator ''iframe[src*="captcha-delivery.com" i], iframe[src*="hcaptcha.com" i], iframe[src*="recaptcha" i], iframe[title*="captcha" i]''\<close>

definition otpInput :: locator where
  \<open>otpInput =
     Locator ''input[autocomplete="one-time-code"], input[name*="code" i], input[id*="code" i]''\<close>

definition twoFactorText :: locator where
  \<open>twoFactorText =
     Locator ''text=/two[- ]factor|2fa|verification code|authentication code|enter the code/i''\<close>

definition cloudfrontText :: locator where
  \<open>cloudfrontText = Locator ''text=/generated by cloudfront|request could not be satisfied/i''\<close>

definition knownSelectors :: "locator list" where
  \<open>knownSelectors =
     [Locator ''#onetrust-accept-btn-handler'',
      Locator ''button[id="onetrust-accept-btn-handler"]'']\<close>

definition isVisible :: "world \<Rightarrow> locator \<Rightarrow> bool io" where
  "isVisible w l = await (ask_bool w) (LocatorFirstIsVisible l)"

definition snapshot :: "world \<Rightarrow> YelpBizClientOptions \<Rightarrow> string \<Rightarrow> string io" where
  "snapshot w opts label = captureDebugArtifacts w (artifactsDir opts) label (Some ''yelp-biz'')"

text \<open>Assignments to the fields \<^verbatim>\<open>#context\<close> and \<^verbatim>\<open>#page\<close> (set or \<^verbatim>\<open>undefined\<close>).\<close>

definition assign_context :: "bool \<Rightarrow> unit io" where
  "assign_context b s = (Inr (), s\<lparr>context_set := b\<rparr>)"

definition assign_page :: "bool \<Rightarrow> unit io" where
  "assign_page b s = (Inr (), s\<lparr>page_set := b\<rparr>)"

definition start :: "world \<Rightarrow> YelpBizClientOptions \<Rightarrow> unit io" where
  "start w opts s =
     (if context_set s then return () s
      else
        bind (await (ask_unit w) (FsMkdir (userDataDir opts))) (\<lambda>_.
        bind (await (ask_unit w)
                (LaunchPersistentContext (userDataDir opts)
                   (case slowMoMs opts of None \<Rightarrow> 0 | Some m \<Rightarrow> m))) (\<lambda>_.
        bind (assign_context True) (\<lambda>_.
        bind (sync (\<lambda>_. ()) (SetDefaultTimeout 30000)) (\<lambda>_.
        bind (sync (\<lambda>_. ()) (SetDefaultNavigationTimeout 45000)) (\<lambda>_.
        bind (sync (sync_bool w) ContextPages) (\<lambda>has_first.
        bind (if has_first then return () else await (ask_unit w) ContextNewPage) (\<lambda>_.
          assign_page True))))))) s)"

definition stop :: "world \<Rightarrow> unit io" where
  "stop w s =
     bind (if context_set s then await (ask_unit w) ContextClose else return ()) (\<lambda>_.
     bind (assign_context False) (\<lambda>_.
       assign_page False)) s"

definition page :: "unit io" where
  "page s = (if \<not> page_set s then throw NotStarted s else return () s)"

subsection \<open>Challenge detection and resolution\<close>

text \<open>
  The \<^verbatim>\<open>for\<close> loop of \<^verbatim>\<open>#maybeHandleCaptcha\<close> over \<^verbatim>\<open>idx < iframeCount\<close>; the last argument
  counts the iterations that remain. A rejected or \<^verbatim>\<open>null\<close> bounding box is skipped, the
  first box of at least 100 by 100 ends the loop.
\<close>

fun scanCaptchaIframes :: "world \<Rightarrow> nat \<Rightarrow> nat \<Rightarrow> bool io" where
  "scanCaptchaIframes w idx 0 = return False"
| "scanCaptchaIframes w idx (Suc k) =
     bind (or_default (await (ask_box w) (LocatorNthBoundingBox captchaIframes idx)) None)
       (\<lambda>b. case b of
               None \<Rightarrow> scanCaptchaIframes w (Suc idx) k
             | Some bx \<Rightarrow>
                 if width bx \<ge> 100 \<and> height bx \<ge> 100 then return True
                 else scanCaptchaIframes w (Suc idx) k)"

text \<open>Lines 196 to 209 of \<^verbatim>\<open>#maybeHandleCaptcha\<close>: the value of \<^verbatim>\<open>captchaChallengeVisible\<close>.\<close>

definition captchaChallengeVisible :: "world \<Rightarrow> bool io" where
  "captchaChallengeVisible w =
     bind (or_default (await (ask_nat w) (LocatorCount captchaIframes)) 0)
       (\<lambda>iframeCount. scanCaptchaIframes w 0 iframeCount)"

definition maybeHandleCaptcha :: "world \<Rightarrow> YelpBizClientOptions \<Rightarrow> string \<Rightarrow> unit io" where
  "maybeHandleCaptcha w opts label =
     bind (captchaChallengeVisible w) (\<lambda>visible.
       if \<not> visible then return ()
       else
         bind (snapshot w opts (''captcha-'' @ label)) (\<lambda>dir.
           catch (await (ask_unit w) (PageWaitFor CaptchaGone (challengeTimeoutMs opts)))
             (\<lambda>_. throw (CaptchaStillPresent dir))))"

text \<open>Lines 263 to 265 of \<^verbatim>\<open>#maybeHandleTwoFactor\<close>: \<^verbatim>\<open>hasOtp\<close>, with the short circuit of \<^verbatim>\<open>||\<close>.\<close>

definition hasOtp :: "world \<Rightarrow> bool io" where
  "hasOtp w =
     bind (or_default (isVisible w otpInput) False) (\<lambda>otp.
       if otp then return True else or_default (isVisible w twoFactorText) False)"

definition maybeHandleTwoFactor :: "world \<Rightarrow> YelpBizClientOptions \<Rightarrow> string \<Rightarrow> unit io" where
  "maybeHandleTwoFactor w opts label =
     bind (hasOtp w) (\<lambda>has.
       if \<not> has then return ()
       else
         bind (snapshot w opts (''twofactor-'' @ label)) (\<lambda>dir.
           catch (await (ask_unit w) (PageWaitFor TwoFactorGone (challengeTimeoutMs opts)))
             (\<lambda>_. throw (TwoFactorStillPresent dir))))"

text \<open>\<^verbatim>\<open>/access-denied|blocked|forbidden|challenge/i.test(url)\<close>.\<close>

definition likelyBlockUrl :: "string \<Rightarrow> bool" where
  "likelyBlockUrl url =
     (\<exists>frag \<in> set [''access-denied'', ''blocked'', ''forbidden'', ''challenge''].
        str_includes (toLowerCase url) frag)"

definition cloudfrontBlockTitle :: "string \<Rightarrow> bool" where
  "cloudfrontBlockTitle title =
     (toLowerCase (trim title) = ''error: the request could not be satisfied'')"

text \<open>
  Lines 311 to 318 of \<^verbatim>\<open>#maybeThrowIfBlocked\<close>: the URL, the title and the disjunction of
  the three block signals, in the order in which the code evaluates them.
\<close>

definition blockSignals :: "world \<Rightarrow> (string \<times> string \<times> bool) io" where
  "blockSignals w =
     bind (sync (sync_string w) PageUrl) (\<lambda>url.
     bind (or_default (await (ask_string w) PageTitle) []) (\<lambda>title.
     bind (or_default (isVisible w cloudfrontText) False) (\<lambda>cloudfrontBlockText.
       return (url, title,
               likelyBlockUrl url \<or> cloudfrontBlockTitle title \<or> cloudfrontBlockText))))"

definition maybeThrowIfBlocked :: "world \<Rightarrow> YelpBizClientOptions \<Rightarrow> string \<Rightarrow> unit io" where
  "maybeThrowIfBlocked w opts label =
     bind (blockSignals w) (\<lambda>(url, title, blocked).
       if \<not> blocked then return ()
       else
         bind (snapshot w opts (''blocked-'' @ label)) (\<lambda>dir.
           throw (BlockedUnavailable url title dir)))"

definition handleChallengesOrBlocks ::
    "world \<Rightarrow> YelpBizClientOptions \<Rightarrow> string \<Rightarrow> unit io" where
  "handleChallengesOrBlocks w opts label =
     bind (maybeHandleCaptcha w opts label) (\<lambda>_.
     bind (maybeHandleTwoFactor w opts label) (\<lambda>_.
       maybeThrowIfBlocked w opts label))"

subsection \<open>Navigation guard\<close>

fun dismissEach :: "world \<Rightarrow> locator list \<Rightarrow> unit io" where
  "dismissEach w [] = return ()"
| "dismissEach w (button # rest) =
     bind (or_default (isVisible w button) False) (\<lambda>visible.
     bind (if visible then or_default (await (ask_unit w) (LocatorFirstClick button)) ()
           else return ()) (\<lambda>_.
       dismissEach w rest))"

definition maybeDismissOverlays :: "world \<Rightarrow> unit io" where
  "maybeDismissOverlays w = dismissEach w knownSelectors"

definition goto :: "world \<Rightarrow> YelpBizClientOptions \<Rightarrow> string \<Rightarrow> unit io" where
  "goto w opts url =
     bind page (\<lambda>_.
     bind (await (ask_unit w) (PageGoto url)) (\<lambda>_.
     bind (maybeDismissOverlays w) (\<lambda>_.
       handleChallengesOrBlocks w opts ''navigation'')))"

subsection \<open>Login orchestration and \<^verbatim>\<open>ensureAuthenticated\<close>\<close>

definition isEmailPasswordLoginVisible :: "world \<Rightarrow> bool io" where
  "isEmailPasswordLoginVisible w = or_default (isVisible w emailInput) False"

text \<open>
  The \<^verbatim>\<open>try\<close> block of \<^verbatim>\<open>#login\<close> (lines 148 to 163): one click, on the role locator when it
  is visible and on the selector locator otherwise; a rejection is snapshotted and
  rethrown with its cause.
\<close>

definition clickSubmit :: "world \<Rightarrow> YelpBizClientOptions \<Rightarrow> unit io" where
  "clickSubmit w opts =
     catch
       (bind (or_default (isVisible w GetByRoleButtonLogIn) False) (\<lambda>byRole.
          if byRole then await (ask_unit w) (LocatorFirstClick GetByRoleButtonLogIn)
          else await (ask_unit w) (LocatorFirstClick submitBySelector)))
       (\<lambda>err. bind (snapshot w opts ''biz-login-submit-click-failed'') (\<lambda>dir.
          throw (LoginSubmitFailed dir err)))"

text \<open>Lines 118 to 169 of \<^verbatim>\<open>#login\<close>: everything up to the post-submit challenge pass.\<close>

definition login_submit :: "world \<Rightarrow> YelpBizClientOptions \<Rightarrow> credentials \<Rightarrow> unit io" where
  "login_submit w opts creds =
     bind (handleChallengesOrBlocks w opts ''login-start'') (\<lambda>_.
     bind (or_default (isVisible w emailInput) False) (\<lambda>hasEmail.
     bind (or_default (isVisible w passwordInput) False) (\<lambda>hasPassword.
       if \<not> hasEmail \<or> \<not> hasPassword
       then bind (snapshot w opts ''biz-login-missing-fields'') (\<lambda>dir.
              throw (LoginFieldsMissing dir))
       else
         bind (await (ask_unit w) (LocatorFirstFill emailInput (username creds))) (\<lambda>_.
         bind (await (ask_unit w) (LocatorFirstFill passwordInput (password creds))) (\<lambda>_.
         bind (clickSubmit w opts) (\<lambda>_.
         bind (or_default (await (ask_unit w) (PageWaitFor UrlLeftLogin 45000)) ()) (\<lambda>_.
           handleChallengesOrBlocks w opts ''login-post-submit'')))))))"

text \<open>Lines 171 to 179 of \<^verbatim>\<open>#login\<close>: the re-check of the login form.\<close>

definition login_verify :: "world \<Rightarrow> YelpBizClientOptions \<Rightarrow> unit io" where
  "login_verify w opts =
     bind (isEmailPasswordLoginVisible w) (\<lambda>stillLoginVisible.
       if stillLoginVisible
       then bind (snapshot w opts ''biz-login-still-visible'') (\<lambda>dir.
              throw (LoginDidNotSucceed dir))
       else return ())"

definition login :: "world \<Rightarrow> YelpBizClientOptions \<Rightarrow> credentials \<Rightarrow> unit io" where
  "login w opts creds = bind (login_submit w opts creds) (\<lambda>_. login_verify w opts)"

text \<open>Lines 70 to 93 of \<^verbatim>\<open>ensureAuthenticated\<close>: start, login surface, login if needed.\<close>

definition ensure_login ::
    "world \<Rightarrow> YelpBizClientOptions \<Rightarrow> credentials option \<Rightarrow> unit io" where
  "ensure_login w opts creds =
     bind (start w opts) (\<lambda>_.
     bind page (\<lambda>_.
     bind (goto w opts ''https://biz.yelp.com/login'') (\<lambda>_.
     bind (isEmailPasswordLoginVisible w) (\<lambda>isLoginFormVisible.
       if isLoginFormVisible
       then (case creds of
               None \<Rightarrow>
                 bind (snapshot w opts ''biz-login-visible-but-missing-credentials'') (\<lambda>dir.
                   throw (LoginVisibleMissingCredentials dir))
             | Some c \<Rightarrow> login w opts c)
       else return ()))))"

text \<open>Lines 95 to 107 of \<^verbatim>\<open>ensureAuthenticated\<close>: the post-condition on the host.\<close>

definition ensure_host :: "world \<Rightarrow> YelpBizClientOptions \<Rightarrow> unit io" where
  "ensure_host w opts =
     bind (goto w opts ''https://biz.yelp.com/'') (\<lambda>_.
     bind (sync (sync_string w) PageUrl) (\<lambda>url.
       case URL_host w url of
         None \<Rightarrow> throw (InvalidURL url)
       | Some host \<Rightarrow>
           if host = ''business.yelp.com''
           then bind (snapshot w opts ''biz-auth-redirected-to-marketing'') (\<lambda>dir.
                  throw (RedirectedToMarketing dir))
           else return ()))"

definition ensureAuthenticated ::
    "world \<Rightarrow> YelpBizClientOptions \<Rightarrow> credentials option \<Rightarrow> unit io" where
  "ensureAuthenticated w opts creds =
     bind (ensure_login w opts creds) (\<lambda>_. ensure_host w opts)"

section \<open>Serial command queue (serialQueue.ts)\<close>

text \<open>
  \<^verbatim>\<open>SerialQueue\<close> is two calls of \<^verbatim>\<open>then\<close> per \<^verbatim>\<open>enqueue\<close>, so its behaviour is the behaviour
  of the promises it creates. The model is a promise store with a job queue, after the
  language's definition of promises: a promise is pending, with the reactions registered
  on it, or settled; \<^verbatim>\<open>then\<close> on a pending promise registers a reaction and on a settled
  one queues a job; settling a promise queues a job for each of its reactions; a handler
  that returns a promise makes the derived promise adopt that promise's outcome, through
  a further job.

  Jobs of other code (such as the continuation of a caller that awaits a handle) do not
  touch the promises of the queue and are left out.

  Promises are named by their origin: \<open>Tail 0\<close> is the initial \<^verbatim>\<open>Promise.resolve()\<close>;
  \<open>Run i\<close> and \<open>Tail i\<close> are the \<^verbatim>\<open>run\<close> and the new \<^verbatim>\<open>#tail\<close> of the \<open>i\<close>-th call of
  \<^verbatim>\<open>enqueue\<close>; \<open>Task i\<close> is the promise returned by the call of the \<open>i\<close>-th task function.
\<close>

datatype pid = Tail nat | Run nat | Task nat

datatype 'v settlement = Fulfilled "'v option" | RejectedWith "'v option"

text \<open>
  The three kinds of reaction in this program: \<^verbatim>\<open>then(fn, fn)\<close>, which calls the task
  function whatever the outcome; \<^verbatim>\<open>then(() => undefined, () => undefined)\<close>; and the
  resolving functions of a promise that adopts another one. The first two carry the
  promise that \<^verbatim>\<open>then\<close> returns.
\<close>

datatype reaction = CallTask nat pid | ToUndefined pid | Adopt pid

datatype 'v pstate = Pending "reaction list" | Settled "'v settlement"

datatype 'v job = ReactionJob reaction "'v settlement" | ResolveThenableJob pid pid

datatype 'v event = Started nat | Finished nat "'v settlement"

record 'v queue_state =
  promises :: "pid \<Rightarrow> 'v pstate option"
  jobs :: "'v job list"
  tail :: pid
  enqueued :: nat
  trace :: "'v event list"

definition queue_init :: "'v queue_state" where
  "queue_init =
     \<lparr>promises = (\<lambda>_. None)(Tail 0 := Some (Settled (Fulfilled None))),
      jobs = [], tail = Tail 0, enqueued = 0, trace = []\<rparr>"

definition new_promise :: "pid \<Rightarrow> 'v queue_state \<Rightarrow> 'v queue_state" where
  "new_promise p st = st\<lparr>promises := (promises st)(p := Some (Pending []))\<rparr>"

definition settle :: "pid \<Rightarrow> 'v settlement \<Rightarrow> 'v queue_state \<Rightarrow> 'v queue_state" where
  "settle p outcome st =
     (case promises st p of
        Some (Pending rs) \<Rightarrow>
          st\<lparr>promises := (promises st)(p := Some (Settled outcome)),
             jobs := jobs st @ map (\<lambda>r. ReactionJob r outcome) rs\<rparr>
      | _ \<Rightarrow> st)"

definition then_react :: "pid \<Rightarrow> reaction \<Rightarrow> 'v queue_state \<Rightarrow> 'v queue_state" where
  "then_react p r st =
     (case promises st p of
        Some (Pending rs) \<Rightarrow> st\<lparr>promises := (promises st)(p := Some (Pending (rs @ [r])))\<rparr>
      | Some (Settled outcome) \<Rightarrow> st\<lparr>jobs := jobs st @ [ReactionJob r outcome]\<rparr>
      | None \<Rightarrow> st)"

text \<open>
  \<^verbatim>\<open>enqueue(fn)\<close>, for the \<open>i\<close>-th task: \<^verbatim>\<open>run = this.#tail.then(fn, fn)\<close>, then
  \<^verbatim>\<open>this.#tail = run.then(() => undefined, () => undefined)\<close>; the handle returned is
  \<open>Run i\<close>.
\<close>

definition enqueue :: "'v queue_state \<Rightarrow> 'v queue_state" where
  "enqueue st =
     (let i = Suc (enqueued st);
          st1 = then_react (tail st) (CallTask i (Run i)) (new_promise (Run i) st);
          st2 = then_react (Run i) (ToUndefined (Tail i)) (new_promise (Tail i) st1)
      in st2\<lparr>tail := Tail i, enqueued := i\<rparr>)"

text \<open>
  Running one job. \<open>throws i\<close> says how the call of the \<open>i\<close>-th task function ends:
  \<open>None\<close> when it returns its promise (every \<^verbatim>\<open>async\<close> function does), \<open>Some e\<close> when it
  throws \<open>e\<close> before returning one. A task is executing from its \<open>Started\<close> event to its
  \<open>Finished\<close> event.
\<close>

fun run_job :: "(nat \<Rightarrow> 'v option option) \<Rightarrow> 'v job \<Rightarrow> 'v queue_state \<Rightarrow> 'v queue_state" where
  "run_job throws (ReactionJob (CallTask i q) outcome) st =
     (case throws i of
        Some e \<Rightarrow>
          settle q (RejectedWith e)
            (st\<lparr>trace := trace st @ [Started i, Finished i (RejectedWith e)]\<rparr>)
      | None \<Rightarrow>
          (let st1 = new_promise (Task i) (st\<lparr>trace := trace st @ [Started i]\<rparr>)
           in st1\<lparr>jobs := jobs st1 @ [ResolveThenableJob q (Task i)]\<rparr>))"
| "run_job throws (ReactionJob (ToUndefined q) outcome) st = settle q (Fulfilled None) st"
| "run_job throws (ReactionJob (Adopt q) outcome) st = settle q outcome st"
| "run_job throws (ResolveThenableJob q t) st = then_react t (Adopt q) st"

datatype 'v action = Enqueue | Tick | Finish nat "'v settlement"

text \<open>
  One step of the system: a caller enqueues a task; the engine runs the first job of the
  job queue; or the task \<open>i\<close>, which is executing, finishes, that is, its promise settles.
\<close>

fun step :: "(nat \<Rightarrow> 'v option option) \<Rightarrow> 'v queue_state \<Rightarrow> 'v action \<Rightarrow> 'v queue_state" where
  "step throws st Enqueue = enqueue st"
| "step throws st Tick =
     (case jobs st of [] \<Rightarrow> st | j # js \<Rightarrow> run_job throws j (st\<lparr>jobs := js\<rparr>))"
| "step throws st (Finish i outcome) =
     (case promises st (Task i) of
        Some (Pending rs) \<Rightarrow>
          settle (Task i) outcome (st\<lparr>trace := trace st @ [Finished i outcome]\<rparr>)
      | _ \<Rightarrow> st)"

definition exec :: "(nat \<Rightarrow> 'v option option) \<Rightarrow> 'v action list \<Rightarrow> 'v queue_state" where
  "exec throws acts = foldl (step throws) queue_init acts"

text \<open>
  A trace is serial from \<open>i\<close> when it reads \<open>Started i\<close>, \<open>Finished i\<close>, \<open>Started (i + 1)\<close>,
  \<open>Finished (i + 1)\<close> and so on, possibly ending after a \<open>Started\<close>.
\<close>

fun serial_from :: "nat \<Rightarrow> 'v event list \<Rightarrow> bool" where
  "serial_from i [] = True"
| "serial_from i [Started j] = (j = i)"
| "serial_from i (Started j # Finished j' outcome # rest) =
     (j = i \<and> j' = i \<and> serial_from (Suc i) rest)"
| "serial_from i (e # rest) = False"

fun is_progress :: "(nat \<Rightarrow> 'v settlement) \<Rightarrow> 'v action \<Rightarrow> bool" where
  "is_progress outs Enqueue = False"
| "is_progress outs Tick = True"
| "is_progress outs (Finish i outcome) = (outcome = outs i)"

subsection \<open>The states the queue can be in\<close>

text \<open>
  With \<open>n\<close> tasks enqueued, the tasks before the \<open>k\<close>-th have finished and the \<open>k\<close>-th is
  in one of six phases: its call is scheduled (or, when \<open>k = n + 1\<close>, nothing is left to
  do); it has been called; it has been called and has already finished; its promise is
  being awaited; its outcome is being passed to the handle; the chain is moving on.
\<close>

datatype phase = Scheduled | Called | CalledDone | Awaiting | Adopting | Chaining

definition outcome_of ::
    "(nat \<Rightarrow> 'v option option) \<Rightarrow> (nat \<Rightarrow> 'v settlement) \<Rightarrow> nat \<Rightarrow> 'v settlement" where
  "outcome_of throws outs j = (case throws j of Some e \<Rightarrow> RejectedWith e | None \<Rightarrow> outs j)"

definition canon_promises ::
    "(nat \<Rightarrow> 'v option option) \<Rightarrow> nat \<Rightarrow> nat \<Rightarrow> phase \<Rightarrow> (nat \<Rightarrow> 'v settlement)
       \<Rightarrow> pid \<Rightarrow> 'v pstate option" where
  "canon_promises throws n k ph outs p =
     (case p of
        Tail j \<Rightarrow>
          if j < k then Some (Settled (Fulfilled None))
          else if j \<le> n
            then Some (Pending (if j < n then [CallTask (Suc j) (Run (Suc j))] else []))
          else None
      | Run j \<Rightarrow>
          if j = 0 \<or> n < j then None
          else if j < k \<or> (j = k \<and> ph = Chaining)
            then Some (Settled (outcome_of throws outs j))
          else Some (Pending [ToUndefined (Tail j)])
      | Task j \<Rightarrow>
          if j = 0 \<or> n < j \<or> throws j \<noteq> None then None
          else if j < k then Some (Settled (outs j))
          else if j = k
            then (case ph of
                    Scheduled \<Rightarrow> None
                  | Called \<Rightarrow> Some (Pending [])
                  | Awaiting \<Rightarrow> Some (Pending [Adopt (Run k)])
                  | _ \<Rightarrow> Some (Settled (outs k)))
          else None)"

definition canon_jobs ::
    "(nat \<Rightarrow> 'v option option) \<Rightarrow> nat \<Rightarrow> nat \<Rightarrow> phase \<Rightarrow> (nat \<Rightarrow> 'v settlement)
       \<Rightarrow> 'v job list" where
  "canon_jobs throws n k ph outs =
     (case ph of
        Scheduled \<Rightarrow>
          if k \<le> n then [ReactionJob (CallTask k (Run k)) (Fulfilled None)] else []
      | Called \<Rightarrow> [ResolveThenableJob (Run k) (Task k)]
      | CalledDone \<Rightarrow> [ResolveThenableJob (Run k) (Task k)]
      | Awaiting \<Rightarrow> []
      | Adopting \<Rightarrow> [ReactionJob (Adopt (Run k)) (outs k)]
      | Chaining \<Rightarrow> [ReactionJob (ToUndefined (Tail k)) (outcome_of throws outs k)])"

definition finished_before ::
    "(nat \<Rightarrow> 'v option option) \<Rightarrow> (nat \<Rightarrow> 'v settlement) \<Rightarrow> nat \<Rightarrow> nat \<Rightarrow> 'v event list" where
  "finished_before throws outs i k =
     concat (map (\<lambda>j. [Started j, Finished j (outcome_of throws outs j)]) [i..<k])"

definition canon_trace ::
    "(nat \<Rightarrow> 'v option option) \<Rightarrow> nat \<Rightarrow> phase \<Rightarrow> (nat \<Rightarrow> 'v settlement) \<Rightarrow> 'v event list" where
  "canon_trace throws k ph outs =
     finished_before throws outs 1 k
     @ (case ph of
          Scheduled \<Rightarrow> []
        | Called \<Rightarrow> [Started k]
        | Awaiting \<Rightarrow> [Started k]
        | _ \<Rightarrow> [Started k, Finished k (outcome_of throws outs k)])"

definition canon ::
    "(nat \<Rightarrow> 'v option option) \<Rightarrow> nat \<Rightarrow> nat \<Rightarrow> phase \<Rightarrow> (nat \<Rightarrow> 'v settlement)
       \<Rightarrow> 'v queue_state" where
  "canon throws n k ph outs =
     \<lparr>promises = canon_promises throws n k ph outs,
      jobs = canon_jobs throws n k ph outs,
      tail = Tail n, enqueued = n,
      trace = canon_trace throws k ph outs\<rparr>"

definition canon_ok :: "(nat \<Rightarrow> 'v option option) \<Rightarrow> nat \<Rightarrow> nat \<Rightarrow> phase \<Rightarrow> bool" where
  "canon_ok throws n k ph =
     (1 \<le> k \<and> k \<le> Suc n \<and> (k = Suc n \<longrightarrow> ph = Scheduled)
      \<and> (ph = Called \<or> ph = CalledDone \<or> ph = Awaiting \<or> ph = Adopting
           \<longrightarrow> throws k = None))"

text \<open>
  Two tasks are enqueued at once; the first rejects, the second fulfils. Neither throws
  before returning its promise.
\<close>

definition example_acts :: "string action list" where
  "example_acts =
     [Enqueue, Enqueue, Tick, Tick, Finish 1 (RejectedWith (Some ''boom'')), Tick, Tick, Tick,
      Tick, Finish 2 (Fulfilled (Some ''ok'')), Tick, Tick]"

section \<open>Calls made and failures raised by a computation\<close>

text \<open>\<open>performed m s\<close>: the calls that \<open>m\<close> makes when it is run from the state \<open>s\<close>.\<close>

definition performed :: "'a io \<Rightarrow> client \<Rightarrow> call list" where
  "performed m s = drop (length (calls s)) (calls (snd (m s)))"

definition only_calls :: "(call \<Rightarrow> bool) \<Rightarrow> 'a io \<Rightarrow> bool" where
  "only_calls P m = (\<forall>s. \<exists>es. calls (snd (m s)) = calls s @ es \<and> list_all P es)"

definition fails_only :: "(error \<Rightarrow> bool) \<Rightarrow> 'a io \<Rightarrow> bool" where
  "fails_only Q m = (\<forall>s. case fst (m s) of Inl e \<Rightarrow> Q e | Inr _ \<Rightarrow> True)"

definition at_most :: "nat \<Rightarrow> (call \<Rightarrow> bool) \<Rightarrow> 'a io \<Rightarrow> bool" where
  "at_most n P m =
     (\<forall>s. \<exists>es. calls (snd (m s)) = calls s @ es \<and> length (filter P es) \<le> n)"

fun is_detection_query :: "call \<Rightarrow> bool" where
  "is_detection_query (LocatorCount l) = True"
| "is_detection_query (LocatorNthBoundingBox l i) = True"
| "is_detection_query (LocatorFirstIsVisible l) = True"
| "is_detection_query PageUrl = True"
| "is_detection_query PageTitle = True"
| "is_detection_query c = False"

fun is_snapshot_call :: "call \<Rightarrow> bool" where
  "is_snapshot_call DateNow = True"
| "is_snapshot_call (FsMkdir d) = True"
| "is_snapshot_call PageTitle = True"
| "is_snapshot_call PageUrl = True"
| "is_snapshot_call PageContent = True"
| "is_snapshot_call (PageScreenshot f) = True"
| "is_snapshot_call (FsWriteFile f) = True"
| "is_snapshot_call c = False"

fun is_click :: "call \<Rightarrow> bool" where
  "is_click (LocatorFirstClick l) = True"
| "is_click c = False"

fun is_fill :: "call \<Rightarrow> bool" where
  "is_fill (LocatorFirstFill l v) = True"
| "is_fill c = False"

fun is_snapshot_failure :: "error \<Rightarrow> bool" where
  "is_snapshot_failure (SnapshotFailed c) = True"
| "is_snapshot_failure e = False"

text \<open>
  The failures of a challenge pass: a wait that rejected, a block that was detected, or
  a snapshot that could not be captured.
\<close>

fun is_challenge_failure :: "error \<Rightarrow> bool" where
  "is_challenge_failure (CaptchaStillPresent d) = True"
| "is_challenge_failure (TwoFactorStillPresent d) = True"
| "is_challenge_failure (BlockedUnavailable u t d) = True"
| "is_challenge_failure (SnapshotFailed c) = True"
| "is_challenge_failure e = False"

definition keeps_flags :: "'a io \<Rightarrow> bool" where
  "keeps_flags m =
     (\<forall>s. context_set (snd (m s)) = context_set s \<and> page_set (snd (m s)) = page_set s)"

section \<open>Failed detection queries read as absent\<close>

text \<open>
  The environment in which every rejected count, bounding box, visibility or title query
  resolves to zero, \<^verbatim>\<open>null\<close>, \<^verbatim>\<open>false\<close> or the empty string instead, and everything else
  is unchanged.
\<close>

definition rejections_as_absent :: "world \<Rightarrow> world" where
  "rejections_as_absent w =
     w\<lparr>ask_nat := (\<lambda>h. case ask_nat w h of Rejects \<Rightarrow> Resolves 0 | Resolves n \<Rightarrow> Resolves n),
       ask_box := (\<lambda>h. case ask_box w h of Rejects \<Rightarrow> Resolves None | Resolves b \<Rightarrow> Resolves b),
       ask_bool :=
         (\<lambda>h. case ask_bool w h of Rejects \<Rightarrow> Resolves False | Resolves b \<Rightarrow> Resolves b),
       ask_string :=
         (\<lambda>h. case ask_string w h of Rejects \<Rightarrow> Resolves [] | Resolves t \<Rightarrow> Resolves t)\<rparr>"

section \<open>Example environments\<close>

text \<open>
  Concrete environments on which the definitions are evaluated. \<open>example_URL_host\<close>
  and \<open>example_path_join\<close> agree with \<^verbatim>\<open>new URL(u).host\<close> and \<^verbatim>\<open>path.join\<close> on the URLs
  and paths of the examples (https URLs without credentials or port; relative segments
  without dots).
\<close>

definition example_URL_host :: "string \<Rightarrow> string option" where
  "example_URL_host u =
     (if prefix ''https://'' u
      then Some (takeWhile (\<lambda>c. c \<noteq> CHR ''/'' \<and> c \<noteq> CHR ''?'' \<and> c \<noteq> CHR ''#'') (drop 8 u))
      else None)"

fun example_path_join :: "string list \<Rightarrow> string" where
  "example_path_join [] = ''.''"
| "example_path_join [p] = p"
| "example_path_join (p # ps) = p @ ''/'' @ example_path_join ps"

text \<open>The URL shown is the target of the latest navigation.\<close>

fun latest_goto :: "call list \<Rightarrow> string \<Rightarrow> string" where
  "latest_goto [] u = u"
| "latest_goto (PageGoto v # cs) u = latest_goto cs v"
| "latest_goto (c # cs) u = latest_goto cs u"

fun example_sync_string :: "call list \<Rightarrow> string" where
  "example_sync_string h =
     (if h \<noteq> [] \<and> last h = DateNow then ''2025-01-01T00:00:00.000Z''
      else latest_goto h ''about:blank'')"

text \<open>
  A logged-in, unchallenged session: every call resolves, nothing is visible, no CAPTCHA
  iframe is present, every navigation lands on its target.
\<close>

definition calm_world :: world where
  "calm_world =
     \<lparr>ask_unit = (\<lambda>_. Resolves ()),
      ask_bool = (\<lambda>_. Resolves False),
      ask_nat = (\<lambda>_. Resolves 0),
      ask_box = (\<lambda>_. Resolves None),
      ask_string = (\<lambda>_. Resolves ''Yelp for Business''),
      sync_string = example_sync_string,
      sync_bool = (\<lambda>_. True),
      URL_host = example_URL_host,
      path_join = example_path_join,
      zod_url = (\<lambda>u. prefix ''https://'' u)\<rparr>"

definition example_opts :: YelpBizClientOptions where
  "example_opts =
     \<lparr>artifactsDir = ''artifacts'', challengeTimeoutOpt = None, slowMoMs = Some 250,
      userDataDir = ''state/yelp-biz/user-data''\<rparr>"

definition started_client :: client where
  "started_client = \<lparr>context_set = True, page_set = True, calls = []\<rparr>"

text \<open>Two CAPTCHA iframes: a badge of 80 by 80 and a challenge of 150 by 150.\<close>

definition two_iframe_boxes :: "nat \<Rightarrow> box option outcome" where
  "two_iframe_boxes j =
     (if j = 0 then Resolves (Some \<lparr>width = 80, height = 80\<rparr>)
      else if j = 1 then Resolves (Some \<lparr>width = 150, height = 150\<rparr>)
      else Rejects)"

definition two_iframe_world :: world where
  "two_iframe_world =
     calm_world
       \<lparr>ask_nat := (\<lambda>_. Resolves 2),
        ask_box := (\<lambda>h. case last h of
                           LocatorNthBoundingBox l j \<Rightarrow> two_iframe_boxes j
                         | _ \<Rightarrow> Rejects)\<rparr>"

text \<open>
  A large CAPTCHA iframe is shown and the page refuses to report its title (every other
  call resolves).
\<close>

definition captcha_title_rejects_world :: world where
  "captcha_title_rejects_world =
     two_iframe_world
       \<lparr>ask_string := (\<lambda>h. if last h = PageTitle then Rejects else Resolves ''<html></html>'')\<rparr>"

fun is_wait :: "call \<Rightarrow> bool" where
  "is_wait (PageWaitFor p t) = True"
| "is_wait c = False"

definition is_challenge_call :: "call \<Rightarrow> bool" where
  "is_challenge_call c = (is_detection_query c \<or> is_snapshot_call c \<or> is_wait c)"

fun is_fill_of :: "locator \<Rightarrow> call \<Rightarrow> bool" where
  "is_fill_of l (LocatorFirstFill l' v) = (l' = l)"
| "is_fill_of l c = False"

text \<open>
  The login form is shown and stays shown whatever is submitted: the email input, the
  password input and the "Log in" button are visible at every query.
\<close>

definition login_stuck_world :: world where
  "login_stuck_world =
     calm_world
       \<lparr>ask_bool := (\<lambda>h. case last h of
                            LocatorFirstIsVisible l \<Rightarrow>
                              Resolves (l = emailInput \<or> l = passwordInput
                                        \<or> l = GetByRoleButtonLogIn)
                          | _ \<Rightarrow> Resolves False)\<rparr>"

text \<open>The same page, refusing to report its title.\<close>

definition login_stuck_title_rejects_world :: world where
  "login_stuck_title_rejects_world =
     login_stuck_world
       \<lparr>ask_string := (\<lambda>h. if last h = PageTitle then Rejects else Resolves ''<html></html>'')\<rparr>"

definition example_creds :: credentials where
  "example_creds = \<lparr>username = ''owner@example.com'', password = ''secret''\<rparr>"

text \<open>
  A logged-in session whose navigation to the portal home is redirected to \<open>target\<close>;
  every other navigation lands on its URL.
\<close>

definition redirect_world :: "string \<Rightarrow> world" where
  "redirect_world target =
     calm_world
       \<lparr>sync_string :=
          (\<lambda>h. if h \<noteq> [] \<and> last h = DateNow then ''2025-01-01T00:00:00.000Z''
                else if latest_goto h ''about:blank'' = ''https://biz.yelp.com/'' then target
                else latest_goto h ''about:blank'')\<rparr>"

text \<open>
  The portal home redirects to the marketing site and the page refuses to report its
  title (every other call resolves).
\<close>

definition marketing_title_rejects_world :: world where
  "marketing_title_rejects_world =
     redirect_world ''https://business.yelp.com/''
       \<lparr>ask_string := (\<lambda>h. if last h = PageTitle then Rejects else Resolves ''<html></html>'')\<rparr>"

section \<open>The HTTP handlers (server.ts)\<close>

text \<open>
  Each handler body below is the task that the handler passes to the serial queue; the
  queue hands the task's own outcome back to the handler (see the queue section).
\<close>

record status_flags =
  captchaVisible :: bool
  twoFactorVisible :: bool
  loginVisible :: bool
  marketingSite :: bool

text \<open>
  The reply of \<^verbatim>\<open>GET /yelp/biz/status\<close>: \<^verbatim>\<open>{started: false}\<close>, or \<^verbatim>\<open>{started: true, url, host,
  title, flags}\<close> where \<^verbatim>\<open>host\<close> and \<^verbatim>\<open>title\<close> may be \<^verbatim>\<open>null\<close>.
\<close>

datatype status_reply =
  StatusNotStarted
  | StatusStarted string "string option" "string option" status_flags

definition statusTwoFactor :: locator where
  \<open>statusTwoFactor =
     Locator ''input[autocomplete="one-time-code"], input[name*="code" i], input[id*="code" i], text=/two[- ]factor|2fa|verification code|authentication code|enter the code/i''\<close>

definition statusLogin :: locator where
  \<open>statusLogin =
     Locator ''input[data-testid="email"], input[name="email"], input[type="email"], input[data-testid="password"], input[name="password"], input[type="password"]''\<close>

text \<open>
  The body of the \<^verbatim>\<open>try\<close> block. The handler's own CAPTCHA loop is the loop of
  \<^verbatim>\<open>#maybeHandleCaptcha\<close>, on the same selector.
\<close>

definition status_try :: "world \<Rightarrow> status_reply io" where
  "status_try w =
     bind page (\<lambda>_.
     bind (sync (sync_string w) PageUrl) (\<lambda>url.
     bind (or_default (bind (await (ask_string w) PageTitle) (\<lambda>t. return (Some t))) None)
       (\<lambda>title.
     bind (captchaChallengeVisible w) (\<lambda>captcha.
     bind (or_default (isVisible w statusTwoFactor) False) (\<lambda>twoFactor.
     bind (or_default (isVisible w statusLogin) False) (\<lambda>login_shown.
       let host = URL_host w url
       in return (StatusStarted url host title
                    \<lparr>captchaVisible = captcha, twoFactorVisible = twoFactor,
                     loginVisible = login_shown,
                     marketingSite = (host = Some ''business.yelp.com'')\<rparr>)))))))"

definition status :: "world \<Rightarrow> status_reply io" where
  "status w = catch (status_try w) (\<lambda>_. return StatusNotStarted)"

record navigate_body =
  body_url :: string
  body_captureLabel :: "string option"

text \<open>
  The reply of \<^verbatim>\<open>POST /yelp/biz/navigate\<close>: the 400 reply (its list of issues is not
  modelled), or \<^verbatim>\<open>{url, title, artifactsDir}\<close> where \<^verbatim>\<open>artifactsDir\<close> may be \<^verbatim>\<open>null\<close>.
\<close>

datatype navigate_reply =
  BadRequest
  | Navigated string string "string option"

definition allowedPrefixes :: "string list" where
  "allowedPrefixes =
     [''https://biz.yelp.com/'', ''https://business.yelp.com/'', ''https://www.yelp.com/'']"

definition url_allowed :: "string \<Rightarrow> bool" where
  "url_allowed u = (\<exists>p \<in> set allowedPrefixes. prefix p u)"

text \<open>
  \<^verbatim>\<open>Body.safeParse\<close> on a body whose fields have the right types: the URL passes zod's
  URL check and the allow-list refinement, the label is absent or has at least one
  character.
\<close>

definition body_valid :: "world \<Rightarrow> navigate_body \<Rightarrow> bool" where
  "body_valid w b =
     (zod_url w (body_url b) \<and> url_allowed (body_url b)
      \<and> (case body_captureLabel b of None \<Rightarrow> True | Some l \<Rightarrow> 1 \<le> length l))"

text \<open>
  Lines 386 to 392: the optional labelled snapshot (an empty label is falsy). The handler
  passes \<^verbatim>\<open>env.artifactsDir\<close>, the directory with which the client was constructed.
\<close>

definition navigate_capture ::
    "world \<Rightarrow> YelpBizClientOptions \<Rightarrow> string option \<Rightarrow> string option io" where
  "navigate_capture w opts label =
     (case label of
        None \<Rightarrow> return None
      | Some l \<Rightarrow>
          if l = [] then return None
          else bind (snapshot w opts l) (\<lambda>dir. return (Some dir)))"

definition navigate_task ::
    "world \<Rightarrow> YelpBizClientOptions \<Rightarrow> navigate_body \<Rightarrow> navigate_reply io" where
  "navigate_task w opts b =
     bind (start w opts) (\<lambda>_.
     bind (goto w opts (body_url b)) (\<lambda>_.
     bind page (\<lambda>_.
     bind (navigate_capture w opts (body_captureLabel b)) (\<lambda>artifacts.
     bind (sync (sync_string w) PageUrl) (\<lambda>url.
     bind (await (ask_string w) PageTitle) (\<lambda>title.
       return (Navigated url title artifacts)))))))"

definition navigate ::
    "world \<Rightarrow> YelpBizClientOptions \<Rightarrow> navigate_body \<Rightarrow> navigate_reply io" where
  "navigate w opts b =
     (if \<not> body_valid w b then return BadRequest else navigate_task w opts b)"

text \<open>A started session in which every query of the page rejects.\<close>

definition broken_queries_world :: world where
  "broken_queries_world =
     calm_world
       \<lparr>ask_bool := (\<lambda>_. Rejects), ask_nat := (\<lambda>_. Rejects), ask_box := (\<lambda>_. Rejects),
        ask_string := (\<lambda>_. Rejects), sync_string := (\<lambda>_. ''https://biz.yelp.com/'')\<rparr>"

text \<open>A started session whose page is the marketing site.\<close>

definition marketing_page_world :: world where
  "marketing_page_world =
     calm_world\<lparr>sync_string := (\<lambda>_. ''https://business.yelp.com/'')\<rparr>"

text \<open>Every page shown carries the title of the CDN's block page.\<close>

definition blocked_world :: world where
  "blocked_world =
     calm_world\<lparr>ask_string := (\<lambda>_. Resolves ''ERROR: The request could not be satisfied'')\<rparr>"

section \<open>Credential resolution: results\<close>

text \<open>
  Claim C10. Credential resolution throws whenever exactly one member of a credential
  pair is set (for the YELP_BUSINESS pair or for the YELP_BIZ pair), throws the ambiguity
  error whenever both pairs are fully set, returns null when no variable is set, and
  otherwise returns the single fully set pair, tagged with its source.
\<close>

theorem resolveBizCredentials_cases:
  "((YELP_BUSINESS_USERNAME d = None) \<noteq> (YELP_BUSINESS_PASSWORD d = None)
      \<longrightarrow> resolveBizCredentials d = Inl IncompleteBusinessCredentials)
   \<and> ((YELP_BUSINESS_USERNAME d = None) = (YELP_BUSINESS_PASSWORD d = None)
      \<and> (YELP_BIZ_USERNAME d = None) \<noteq> (YELP_BIZ_PASSWORD d = None)
      \<longrightarrow> resolveBizCredentials d = Inl IncompleteBizCredentials)
   \<and> (YELP_BUSINESS_USERNAME d = Some bu \<and> YELP_BUSINESS_PASSWORD d = Some bp
      \<and> YELP_BIZ_USERNAME d = Some zu \<and> YELP_BIZ_PASSWORD d = Some zp
      \<longrightarrow> resolveBizCredentials d
            = Inl (AmbiguousCredentials [SRC_YELP_BUSINESS, SRC_YELP_BIZ]))
   \<and> (YELP_BUSINESS_USERNAME d = None \<and> YELP_BUSINESS_PASSWORD d = None
      \<and> YELP_BIZ_USERNAME d = None \<and> YELP_BIZ_PASSWORD d = None
      \<longrightarrow> resolveBizCredentials d = Inr None)
   \<and> (YELP_BUSINESS_USERNAME d = Some bu \<and> YELP_BUSINESS_PASSWORD d = Some bp
      \<and> YELP_BIZ_USERNAME d = None \<and> YELP_BIZ_PASSWORD d = None
      \<longrightarrow> resolveBizCredentials d
            = Inr (Some \<lparr>username = bu, password = bp, source = SRC_YELP_BUSINESS\<rparr>))
   \<and> (YELP_BUSINESS_USERNAME d = None \<and> YELP_BUSINESS_PASSWORD d = None
      \<and> YELP_BIZ_USERNAME d = Some zu \<and> YELP_BIZ_PASSWORD d = Some zp
      \<longrightarrow> resolveBizCredentials d
            = Inr (Some \<lparr>username = zu, password = zp, source = SRC_YELP_BIZ\<rparr>))"
  by (auto simp: resolveBizCredentials_def business_candidate_def biz_candidate_def Let_def)

theorem resolveBizCredentials_cases_witness:
  "resolveBizCredentials
     \<lparr>YELP_BUSINESS_USERNAME = Some ''owner@example.com'', YELP_BUSINESS_PASSWORD = None,
      YELP_BIZ_USERNAME = None, YELP_BIZ_PASSWORD = None\<rparr>
     = Inl IncompleteBusinessCredentials
   \<and> resolveBizCredentials
     \<lparr>YELP_BUSINESS_USERNAME = None, YELP_BUSINESS_PASSWORD = None,
      YELP_BIZ_USERNAME = None, YELP_BIZ_PASSWORD = Some ''pw''\<rparr>
     = Inl IncompleteBizCredentials
   \<and> resolveBizCredentials
     \<lparr>YELP_BUSINESS_USERNAME = Some ''a'', YELP_BUSINESS_PASSWORD = Some ''b'',
      YELP_BIZ_USERNAME = Some ''c'', YELP_BIZ_PASSWORD = Some ''d''\<rparr>
     = Inl (AmbiguousCredentials [SRC_YELP_BUSINESS, SRC_YELP_BIZ])
   \<and> resolveBizCredentials
     \<lparr>YELP_BUSINESS_USERNAME = None, YELP_BUSINESS_PASSWORD = None,
      YELP_BIZ_USERNAME = None, YELP_BIZ_PASSWORD = None\<rparr>
     = Inr None
   \<and> resolveBizCredentials
     \<lparr>YELP_BUSINESS_USERNAME = Some ''a'', YELP_BUSINESS_PASSWORD = Some ''b'',
      YELP_BIZ_USERNAME = None, YELP_BIZ_PASSWORD = None\<rparr>
     = Inr (Some \<lparr>username = ''a'', password = ''b'', source = SRC_YELP_BUSINESS\<rparr>)
   \<and> resolveBizCredentials
     \<lparr>YELP_BUSINESS_USERNAME = None, YELP_BUSINESS_PASSWORD = None,
      YELP_BIZ_USERNAME = Some ''c'', YELP_BIZ_PASSWORD = Some ''d''\<rparr>
     = Inr (Some \<lparr>username = ''c'', password = ''d'', source = SRC_YELP_BIZ\<rparr>)"
  using
    resolveBizCredentials_cases [of
      "\<lparr>YELP_BUSINESS_USERNAME = Some ''owner@example.com'', YELP_BUSINESS_PASSWORD = None,
        YELP_BIZ_USERNAME = None, YELP_BIZ_PASSWORD = None\<rparr>"]
    resolveBizCredentials_cases [of
      "\<lparr>YELP_BUSINESS_USERNAME = None, YELP_BUSINESS_PASSWORD = None,
        YELP_BIZ_USERNAME = None, YELP_BIZ_PASSWORD = Some ''pw''\<rparr>"]
    resolveBizCredentials_cases [of
      "\<lparr>YELP_BUSINESS_USERNAME = Some ''a'', YELP_BUSINESS_PASSWORD = Some ''b'',
        YELP_BIZ_USERNAME = Some ''c'', YELP_BIZ_PASSWORD = Some ''d''\<rparr>" "''a''" "''b''" "''c''" "''d''"]
    resolveBizCredentials_cases [of
      "\<lparr>YELP_BUSINESS_USERNAME = None, YELP_BUSINESS_PASSWORD = None,
        YELP_BIZ_USERNAME = None, YELP_BIZ_PASSWORD = None\<rparr>"]
    resolveBizCredentials_cases [of
      "\<lparr>YELP_BUSINESS_USERNAME = Some ''a'', YELP_BUSINESS_PASSWORD = Some ''b'',
        YELP_BIZ_USERNAME = None, YELP_BIZ_PASSWORD = None\<rparr>" "''a''" "''b''"]
    resolveBizCredentials_cases [of
      "\<lparr>YELP_BUSINESS_USERNAME = None, YELP_BUSINESS_PASSWORD = None,
        YELP_BIZ_USERNAME = Some ''c'', YELP_BIZ_PASSWORD = Some ''d''\<rparr>" _ _ "''c''" "''d''"]
  by simp

section \<open>Rules for calls and failures\<close>

lemma only_callsI:
  "(\<And>s. \<exists>es. calls (snd (m s)) = calls s @ es \<and> list_all P es) \<Longrightarrow> only_calls P m"
  by (simp add: only_calls_def)

lemma only_callsD:
  "only_calls P m \<Longrightarrow> \<exists>es. calls (snd (m s)) = calls s @ es \<and> list_all P es"
  by (simp add: only_calls_def)

lemma only_calls_performed:
  assumes "only_calls P m"
  shows "calls (snd (m s)) = calls s @ performed m s \<and> list_all P (performed m s)"
proof -
  from only_callsD [OF assms, of s] obtain es
    where es: "calls (snd (m s)) = calls s @ es" "list_all P es" by blast
  then have "performed m s = es" by (simp add: performed_def)
  with es show ?thesis by simp
qed

lemma only_calls_return: "only_calls P (return x)"
  by (rule only_callsI, rule exI [of _ "[]"]) (simp add: return_def)

lemma only_calls_throw: "only_calls P (throw e)"
  by (rule only_callsI, rule exI [of _ "[]"]) (simp add: throw_def)

lemma only_calls_await: "P c \<Longrightarrow> only_calls P (await ask c)"
  by (rule only_callsI, rule exI [of _ "[c]"])
     (simp add: await_def log_call_def Let_def split: outcome.splits)

lemma only_calls_sync: "P c \<Longrightarrow> only_calls P (sync ask c)"
  by (rule only_callsI, rule exI [of _ "[c]"]) (simp add: sync_def log_call_def Let_def)

lemma only_calls_bind:
  assumes "only_calls P m" and "\<And>x. only_calls P (f x)"
  shows "only_calls P (bind m f)"
proof (rule only_callsI)
  fix s
  obtain r s1 where ms: "m s = (r, s1)" by (cases "m s")
  from only_callsD [OF assms(1), of s] ms obtain es
    where es: "calls s1 = calls s @ es" "list_all P es" by auto
  show "\<exists>es. calls (snd (bind m f s)) = calls s @ es \<and> list_all P es"
  proof (cases r)
    case (Inl e)
    then show ?thesis using ms es by (auto simp: bind_def)
  next
    case (Inr x)
    from only_callsD [OF assms(2), of x s1] obtain fs where
      fs: "calls (snd (f x s1)) = calls s1 @ fs" "list_all P fs" by blast
    have "calls (snd (bind m f s)) = calls s @ (es @ fs)"
      using ms Inr fs(1) es(1) by (simp add: bind_def)
    moreover have "list_all P (es @ fs)" using es(2) fs(2) by simp
    ultimately show ?thesis by blast
  qed
qed

lemma only_calls_catch:
  assumes "only_calls P m" and "\<And>e. only_calls P (f e)"
  shows "only_calls P (catch m f)"
proof (rule only_callsI)
  fix s
  obtain r s1 where ms: "m s = (r, s1)" by (cases "m s")
  from only_callsD [OF assms(1), of s] ms obtain es
    where es: "calls s1 = calls s @ es" "list_all P es" by auto
  show "\<exists>es. calls (snd (catch m f s)) = calls s @ es \<and> list_all P es"
  proof (cases r)
    case (Inr x)
    then show ?thesis using ms es by (auto simp: catch_def)
  next
    case (Inl e)
    from only_callsD [OF assms(2), of e s1] obtain fs where
      fs: "calls (snd (f e s1)) = calls s1 @ fs" "list_all P fs" by blast
    have "calls (snd (catch m f s)) = calls s @ (es @ fs)"
      using ms Inl fs(1) es(1) by (simp add: catch_def)
    moreover have "list_all P (es @ fs)" using es(2) fs(2) by simp
    ultimately show ?thesis by blast
  qed
qed

lemma only_calls_or_default: "only_calls P m \<Longrightarrow> only_calls P (or_default m d)"
  unfolding or_default_def by (rule only_calls_catch) (simp_all add: only_calls_return)

lemma only_calls_all2:
  assumes "only_calls P m1" and "only_calls P m2"
  shows "only_calls P (all2 m1 m2)"
proof (rule only_callsI)
  fix s
  obtain r1 s1 where m1: "m1 s = (r1, s1)" by (cases "m1 s")
  obtain r2 s2 where m2: "m2 s1 = (r2, s2)" by (cases "m2 s1")
  from only_callsD [OF assms(1), of s] m1 obtain es
    where es: "calls s1 = calls s @ es" "list_all P es" by auto
  from only_callsD [OF assms(2), of s1] m2 obtain fs
    where fs: "calls s2 = calls s1 @ fs" "list_all P fs" by auto
  have "calls (snd (all2 m1 m2 s)) = calls s @ (es @ fs)"
    using m1 m2 es(1) fs(1) by (simp add: all2_def)
  moreover have "list_all P (es @ fs)" using es(2) fs(2) by simp
  ultimately show "\<exists>es. calls (snd (all2 m1 m2 s)) = calls s @ es \<and> list_all P es"
    by blast
qed

lemma only_calls_mono: "only_calls P m \<Longrightarrow> (\<And>c. P c \<Longrightarrow> Q c) \<Longrightarrow> only_calls Q m"
  unfolding only_calls_def by (metis list.pred_mono_strong)

lemma fails_onlyI: "(\<And>s e. fst (m s) = Inl e \<Longrightarrow> Q e) \<Longrightarrow> fails_only Q m"
  by (simp add: fails_only_def split: sum.splits)

lemma fails_onlyD: "fails_only Q m \<Longrightarrow> fst (m s) = Inl e \<Longrightarrow> Q e"
  unfolding fails_only_def by (drule spec [of _ s]) simp

lemma fails_only_return: "fails_only Q (return x)"
  by (rule fails_onlyI) (simp add: return_def)

lemma fails_only_throw: "Q e \<Longrightarrow> fails_only Q (throw e)"
  by (rule fails_onlyI) (simp add: throw_def)

lemma fails_only_await: "Q (CallRejected c) \<Longrightarrow> fails_only Q (await ask c)"
  by (rule fails_onlyI) (auto simp: await_def Let_def split: outcome.splits)

lemma fails_only_sync: "fails_only Q (sync ask c)"
  by (rule fails_onlyI) (simp add: sync_def Let_def)

lemma fails_only_bind:
  assumes "fails_only Q m" and "\<And>x. fails_only Q (f x)"
  shows "fails_only Q (bind m f)"
proof (rule fails_onlyI)
  fix s e
  assume a: "fst (bind m f s) = Inl e"
  obtain r s1 where ms: "m s = (r, s1)" by (cases "m s")
  show "Q e"
  proof (cases r)
    case (Inl e')
    with a ms have "e' = e" by (simp add: bind_def)
    with Inl ms fails_onlyD [OF assms(1), of s e] show ?thesis by simp
  next
    case (Inr x)
    with a ms have "fst (f x s1) = Inl e" by (simp add: bind_def)
    then show ?thesis by (rule fails_onlyD [OF assms(2)])
  qed
qed

lemma fails_only_catch:
  assumes "\<And>e. fails_only Q (f e)"
  shows "fails_only Q (catch m f)"
proof (rule fails_onlyI)
  fix s e
  assume a: "fst (catch m f s) = Inl e"
  obtain r s1 where ms: "m s = (r, s1)" by (cases "m s")
  show "Q e"
  proof (cases r)
    case (Inl e')
    with a ms have "fst (f e' s1) = Inl e" by (simp add: catch_def)
    then show ?thesis by (rule fails_onlyD [OF assms])
  next
    case (Inr x)
    with a ms show ?thesis by (simp add: catch_def)
  qed
qed

lemma fails_only_or_default: "fails_only Q (or_default m d)"
  unfolding or_default_def by (rule fails_only_catch) (rule fails_only_return)

lemma fails_only_all2:
  assumes "fails_only Q m1" and "fails_only Q m2"
  shows "fails_only Q (all2 m1 m2)"
proof (rule fails_onlyI)
  fix s e
  assume a: "fst (all2 m1 m2 s) = Inl e"
  obtain r1 s1 where m1: "m1 s = (r1, s1)" by (cases "m1 s")
  obtain r2 s2 where m2: "m2 s1 = (r2, s2)" by (cases "m2 s1")
  from a m1 m2 have "r1 = Inl e \<or> r2 = Inl e"
    by (auto simp: all2_def split: sum.splits)
  then show "Q e"
  proof
    assume "r1 = Inl e"
    with m1 fails_onlyD [OF assms(1), of s e] show ?thesis by simp
  next
    assume "r2 = Inl e"
    with m2 fails_onlyD [OF assms(2), of s1 e] show ?thesis by simp
  qed
qed

lemma fails_only_mono: "fails_only P m \<Longrightarrow> (\<And>e. P e \<Longrightarrow> Q e) \<Longrightarrow> fails_only Q m"
  by (rule fails_onlyI) (blast dest: fails_onlyD)

section \<open>The snapshot sink: calls and failures\<close>

lemma fails_only_in_snapshot:
  assumes "fails_only (\<lambda>e. \<exists>c. e = CallRejected c) m"
  shows "fails_only is_snapshot_failure (in_snapshot m)"
proof (rule fails_onlyI)
  fix s e
  assume a: "fst (in_snapshot m s) = Inl e"
  obtain r s1 where ms: "m s = (r, s1)" by (cases "m s")
  show "is_snapshot_failure e"
  proof (cases r)
    case (Inl e')
    with ms fails_onlyD [OF assms, of s e'] obtain c where "e' = CallRejected c" by auto
    with a ms Inl show ?thesis by (auto simp: in_snapshot_def catch_def throw_def)
  next
    case (Inr x)
    with a ms show ?thesis by (simp add: in_snapshot_def catch_def)
  qed
qed

lemma only_calls_in_snapshot: "only_calls P m \<Longrightarrow> only_calls P (in_snapshot m)"
  unfolding in_snapshot_def by (rule only_calls_catch) (simp_all add: only_calls_throw)

lemma only_calls_snapshot: "only_calls is_snapshot_call (snapshot w opts label)"
  unfolding snapshot_def captureDebugArtifacts_def Let_def
  by (intro only_calls_in_snapshot only_calls_bind only_calls_all2 only_calls_await
        only_calls_sync only_calls_return allI) simp_all

lemma fails_only_snapshot: "fails_only is_snapshot_failure (snapshot w opts label)"
  unfolding snapshot_def captureDebugArtifacts_def Let_def
  by (intro fails_only_in_snapshot fails_only_bind fails_only_all2 fails_only_await
        fails_only_sync fails_only_return allI) simp_all

section \<open>Challenge detection: calls and failures\<close>

lemma only_calls_scan: "only_calls is_detection_query (scanCaptchaIframes w idx k)"
proof (induction k arbitrary: idx)
  case 0
  show ?case by (simp add: only_calls_return)
next
  case (Suc k)
  show ?case
    unfolding scanCaptchaIframes.simps
    by (intro only_calls_bind only_calls_or_default only_calls_await)
       (simp_all add: Suc only_calls_return split: option.split)
qed

lemma fails_never_scan: "fails_only (\<lambda>_. False) (scanCaptchaIframes w idx k)"
proof (induction k arbitrary: idx)
  case 0
  show ?case by (simp add: fails_only_return)
next
  case (Suc k)
  show ?case
    unfolding scanCaptchaIframes.simps
    by (intro fails_only_bind fails_only_or_default)
       (simp_all add: Suc fails_only_return split: option.split)
qed

lemma only_calls_captchaChallengeVisible:
  "only_calls is_detection_query (captchaChallengeVisible w)"
  unfolding captchaChallengeVisible_def
  by (intro only_calls_bind only_calls_or_default only_calls_await only_calls_scan) simp

lemma fails_never_captchaChallengeVisible:
  "fails_only (\<lambda>_. False) (captchaChallengeVisible w)"
  unfolding captchaChallengeVisible_def
  by (intro fails_only_bind fails_only_or_default fails_never_scan)

lemma only_calls_hasOtp: "only_calls is_detection_query (hasOtp w)"
  unfolding hasOtp_def isVisible_def
  by (intro only_calls_bind only_calls_or_default only_calls_await)
     (simp_all add: only_calls_return only_calls_or_default only_calls_await)

lemma fails_never_hasOtp: "fails_only (\<lambda>_. False) (hasOtp w)"
  unfolding hasOtp_def
  by (intro fails_only_bind fails_only_or_default)
     (simp add: fails_only_return fails_only_or_default)

lemma only_calls_blockSignals: "only_calls is_detection_query (blockSignals w)"
  unfolding blockSignals_def isVisible_def
  by (intro only_calls_bind only_calls_or_default only_calls_await only_calls_sync
        only_calls_return) simp_all

lemma fails_never_blockSignals: "fails_only (\<lambda>_. False) (blockSignals w)"
  unfolding blockSignals_def
  by (intro fails_only_bind fails_only_or_default fails_only_sync fails_only_return)

lemma fails_only_maybeHandleCaptcha:
  "fails_only is_challenge_failure (maybeHandleCaptcha w opts label)"
  unfolding maybeHandleCaptcha_def
  apply (rule fails_only_bind)
   apply (rule fails_only_mono [OF fails_never_captchaChallengeVisible], simp)
  apply (simp add: fails_only_return)
  apply (intro impI fails_only_bind fails_only_catch fails_only_throw)
   apply (rule fails_only_mono [OF fails_only_snapshot])
   apply (case_tac e; simp)
  apply simp
  done

lemma fails_only_maybeHandleTwoFactor:
  "fails_only is_challenge_failure (maybeHandleTwoFactor w opts label)"
  unfolding maybeHandleTwoFactor_def
  apply (rule fails_only_bind)
   apply (rule fails_only_mono [OF fails_never_hasOtp], simp)
  apply (simp add: fails_only_return)
  apply (intro impI fails_only_bind fails_only_catch fails_only_throw)
   apply (rule fails_only_mono [OF fails_only_snapshot])
   apply (case_tac e; simp)
  apply simp
  done

lemma fails_only_maybeThrowIfBlocked:
  "fails_only is_challenge_failure (maybeThrowIfBlocked w opts label)"
  unfolding maybeThrowIfBlocked_def
  apply (rule fails_only_bind)
   apply (rule fails_only_mono [OF fails_never_blockSignals], simp)
  apply (simp add: fails_only_return split: prod.split)
  apply (intro impI allI fails_only_bind fails_only_throw)
   apply (rule fails_only_mono [OF fails_only_snapshot])
   apply (case_tac e; simp)
  apply simp
  done

lemma fails_only_handleChallengesOrBlocks:
  "fails_only is_challenge_failure (handleChallengesOrBlocks w opts label)"
  unfolding handleChallengesOrBlocks_def
  by (intro fails_only_bind fails_only_maybeHandleCaptcha fails_only_maybeHandleTwoFactor
        fails_only_maybeThrowIfBlocked)

section \<open>The CAPTCHA detector\<close>

lemma bounding_box_static:
  assumes "\<forall>h j. ask_box w (h @ [LocatorNthBoundingBox captchaIframes j]) = boxes j"
  shows "or_default (await (ask_box w) (LocatorNthBoundingBox captchaIframes j)) None s
           = (Inr (case boxes j of Rejects \<Rightarrow> None | Resolves b \<Rightarrow> b),
              log_call (LocatorNthBoundingBox captchaIframes j) s)"
  using assms
  by (simp add: or_default_def catch_def await_def return_def log_call_def Let_def
           split: outcome.splits)

lemma scan_static:
  assumes "\<forall>h j. ask_box w (h @ [LocatorNthBoundingBox captchaIframes j]) = boxes j"
  shows "fst (scanCaptchaIframes w idx k s)
           = Inr (\<exists>j. idx \<le> j \<and> j < idx + k
                    \<and> (\<exists>b. boxes j = Resolves (Some b) \<and> 100 \<le> width b \<and> 100 \<le> height b))"
proof (induction k arbitrary: idx s)
  case 0
  show ?case by (simp add: return_def)
next
  case (Suc k)
  let ?big = "\<lambda>j. \<exists>b. boxes j = Resolves (Some b) \<and> 100 \<le> width b \<and> 100 \<le> height b"
  let ?s1 = "log_call (LocatorNthBoundingBox captchaIframes idx) s"
  have rest: "fst (scanCaptchaIframes w (Suc idx) k ?s1)
                = Inr (\<exists>j. Suc idx \<le> j \<and> j < Suc idx + k \<and> ?big j)"
    by (rule Suc.IH)
  have split_range: "(\<exists>j. idx \<le> j \<and> j < idx + Suc k \<and> ?big j)
                       = (?big idx \<or> (\<exists>j. Suc idx \<le> j \<and> j < Suc idx + k \<and> ?big j))"
    (is "?L = (_ \<or> ?R)")
  proof
    assume ?L
    then obtain j where j: "idx \<le> j" "j < idx + Suc k" "?big j" by blast
    show "?big idx \<or> ?R"
    proof (cases "j = idx")
      case True
      with j(3) show ?thesis by simp
    next
      case False
      with j have "Suc idx \<le> j \<and> j < Suc idx + k \<and> ?big j" by simp
      then show ?thesis by blast
    qed
  next
    assume "?big idx \<or> ?R"
    then show ?L
    proof
      assume "?big idx"
      then have "idx \<le> idx \<and> idx < idx + Suc k \<and> ?big idx" by simp
      then show ?L by blast
    next
      assume ?R
      then obtain j where "Suc idx \<le> j" "j < Suc idx + k" "?big j" by blast
      then have "idx \<le> j \<and> j < idx + Suc k \<and> ?big j" by simp
      then show ?L by blast
    qed
  qed
  show ?case
  proof (cases "?big idx")
    case True
    then obtain b where "boxes idx = Resolves (Some b)" "100 \<le> width b" "100 \<le> height b"
      by blast
    then have "fst (scanCaptchaIframes w idx (Suc k) s) = Inr True"
      by (simp add: bind_def bounding_box_static [OF assms] return_def)
    with True split_range show ?thesis by simp
  next
    case False
    then have "fst (scanCaptchaIframes w idx (Suc k) s)
                 = fst (scanCaptchaIframes w (Suc idx) k ?s1)"
      by (auto simp: bind_def bounding_box_static [OF assms] return_def
               split: outcome.splits option.splits)
    also note rest
    also from False split_range
    have "(\<exists>j. Suc idx \<le> j \<and> j < Suc idx + k \<and> ?big j)
            = (\<exists>j. idx \<le> j \<and> j < idx + Suc k \<and> ?big j)"
      by blast
    finally show ?thesis .
  qed
qed

text \<open>
  Claim C3. The iframes found on the page are those counted by the count query (none
  when that query rejects); \<open>boxes j\<close> is the bounding box that the page reports for the
  \<open>j\<close>-th of them. The detector classifies the page as having an active challenge if and
  only if one of these iframes has a bounding box at least 100 wide and at least 100
  high. If every iframe is 80 by 80 the page is not classified as challenged; if one
  iframe is 150 by 150 it is.
\<close>

theorem captcha_active_iff_large_iframe:
  assumes "\<forall>h j. ask_box w (h @ [LocatorNthBoundingBox captchaIframes j]) = boxes j"
    and "iframeCount = (case ask_nat w (calls s @ [LocatorCount captchaIframes]) of
                          Rejects \<Rightarrow> 0 | Resolves n \<Rightarrow> n)"
  shows "fst (captchaChallengeVisible w s)
           = Inr (\<exists>j<iframeCount. \<exists>b. boxes j = Resolves (Some b)
                                     \<and> 100 \<le> width b \<and> 100 \<le> height b)
         \<and> ((\<forall>j<iframeCount. boxes j = Resolves (Some \<lparr>width = 80, height = 80\<rparr>))
              \<longrightarrow> fst (captchaChallengeVisible w s) = Inr False)
         \<and> ((\<exists>j<iframeCount. boxes j = Resolves (Some \<lparr>width = 150, height = 150\<rparr>))
              \<longrightarrow> fst (captchaChallengeVisible w s) = Inr True)"
proof -
  let ?big = "\<lambda>j. \<exists>b. boxes j = Resolves (Some b) \<and> 100 \<le> width b \<and> 100 \<le> height b"
  let ?s1 = "log_call (LocatorCount captchaIframes) s"
  have count: "or_default (await (ask_nat w) (LocatorCount captchaIframes)) 0 s
                 = (Inr iframeCount, ?s1)"
    using assms(2)
    by (simp add: or_default_def catch_def await_def return_def log_call_def Let_def
             split: outcome.splits)
  have "fst (captchaChallengeVisible w s) = fst (scanCaptchaIframes w 0 iframeCount ?s1)"
    by (simp add: captchaChallengeVisible_def bind_def count)
  also have "\<dots> = Inr (\<exists>j. 0 \<le> j \<and> j < 0 + iframeCount \<and> ?big j)"
    by (rule scan_static [OF assms(1)])
  finally have main: "fst (captchaChallengeVisible w s) = Inr (\<exists>j<iframeCount. ?big j)"
    by simp
  have small: "fst (captchaChallengeVisible w s) = Inr False"
    if "\<forall>j<iframeCount. boxes j = Resolves (Some \<lparr>width = 80, height = 80\<rparr>)"
  proof -
    have "\<not> (\<exists>j<iframeCount. ?big j)"
    proof
      assume "\<exists>j<iframeCount. ?big j"
      then obtain j b where j: "j < iframeCount" "boxes j = Resolves (Some b)" "100 \<le> width b"
        by blast
      from that j(1) have "boxes j = Resolves (Some \<lparr>width = 80, height = 80\<rparr>)" by blast
      with j(2) have "width b = 80" by auto
      with j(3) show False by simp
    qed
    with main show ?thesis by simp
  qed
  have large: "fst (captchaChallengeVisible w s) = Inr True"
    if "\<exists>j<iframeCount. boxes j = Resolves (Some \<lparr>width = 150, height = 150\<rparr>)"
  proof -
    from that obtain j where "j < iframeCount"
      "boxes j = Resolves (Some \<lparr>width = 150, height = 150\<rparr>)" by blast
    then have "j < iframeCount \<and> ?big j" by simp
    then have "\<exists>j<iframeCount. ?big j" by blast
    with main show ?thesis by simp
  qed
  from main small large show ?thesis by blast
qed

lemma two_iframe_world_static:
  "\<forall>h j. ask_box two_iframe_world (h @ [LocatorNthBoundingBox captchaIframes j])
            = two_iframe_boxes j"
  by (simp add: two_iframe_world_def)

theorem captcha_active_iff_large_iframe_witness:
  "fst (captchaChallengeVisible two_iframe_world started_client) = Inr True
   \<and> (\<exists>j<2. two_iframe_boxes j = Resolves (Some \<lparr>width = 150, height = 150\<rparr>))"
proof -
  have cnt: "(2::nat) = (case ask_nat two_iframe_world
                                (calls started_client @ [LocatorCount captchaIframes]) of
                           Rejects \<Rightarrow> 0 | Resolves n \<Rightarrow> n)"
    by (simp add: two_iframe_world_def)
  have ex: "\<exists>j<2. two_iframe_boxes j = Resolves (Some \<lparr>width = 150, height = 150\<rparr>)"
    by (rule exI [of _ 1]) (simp add: two_iframe_boxes_def)
  from captcha_active_iff_large_iframe [OF two_iframe_world_static cnt] ex
  show ?thesis by blast
qed

section \<open>Challenge passes\<close>

text \<open>
  Claim C8. For each challenge kind, when the detection signals report the challenge as
  not present, the pass returns at once and normally: its final state is the state
  reached by the detection queries, and the only calls it has made are detection queries
  (count, bounding box, visibility, URL, title), so no snapshot is captured and no wait
  is entered.
\<close>

theorem absent_challenge_is_noop:
  "(fst (captchaChallengeVisible w s) = Inr False \<longrightarrow>
      maybeHandleCaptcha w opts label s = (Inr (), snd (captchaChallengeVisible w s))
      \<and> list_all is_detection_query (performed (maybeHandleCaptcha w opts label) s))
   \<and> (fst (hasOtp w s) = Inr False \<longrightarrow>
      maybeHandleTwoFactor w opts label s = (Inr (), snd (hasOtp w s))
      \<and> list_all is_detection_query (performed (maybeHandleTwoFactor w opts label) s))
   \<and> (fst (blockSignals w s) = Inr (url, title, False) \<longrightarrow>
      maybeThrowIfBlocked w opts label s = (Inr (), snd (blockSignals w s))
      \<and> list_all is_detection_query (performed (maybeThrowIfBlocked w opts label) s))"
proof (intro conjI impI)
  assume a: "fst (captchaChallengeVisible w s) = Inr False"
  then show r: "maybeHandleCaptcha w opts label s = (Inr (), snd (captchaChallengeVisible w s))"
    by (cases "captchaChallengeVisible w s") (simp add: maybeHandleCaptcha_def bind_def return_def)
  have "performed (maybeHandleCaptcha w opts label) s = performed (captchaChallengeVisible w) s"
    using r by (simp add: performed_def)
  then show "list_all is_detection_query (performed (maybeHandleCaptcha w opts label) s)"
    using only_calls_performed [OF only_calls_captchaChallengeVisible, of w s] by simp
next
  assume a: "fst (hasOtp w s) = Inr False"
  then show r: "maybeHandleTwoFactor w opts label s = (Inr (), snd (hasOtp w s))"
    by (cases "hasOtp w s") (simp add: maybeHandleTwoFactor_def bind_def return_def)
  have "performed (maybeHandleTwoFactor w opts label) s = performed (hasOtp w) s"
    using r by (simp add: performed_def)
  then show "list_all is_detection_query (performed (maybeHandleTwoFactor w opts label) s)"
    using only_calls_performed [OF only_calls_hasOtp, of w s] by simp
next
  assume a: "fst (blockSignals w s) = Inr (url, title, False)"
  then show r: "maybeThrowIfBlocked w opts label s = (Inr (), snd (blockSignals w s))"
    by (cases "blockSignals w s") (simp add: maybeThrowIfBlocked_def bind_def return_def)
  have "performed (maybeThrowIfBlocked w opts label) s = performed (blockSignals w) s"
    using r by (simp add: performed_def)
  then show "list_all is_detection_query (performed (maybeThrowIfBlocked w opts label) s)"
    using only_calls_performed [OF only_calls_blockSignals, of w s] by simp
qed

lemma calm_no_captcha: "fst (captchaChallengeVisible calm_world started_client) = Inr False"
  by (simp add: captchaChallengeVisible_def bind_def or_default_def catch_def await_def
        return_def log_call_def calm_world_def Let_def)

lemma calm_no_otp: "fst (hasOtp calm_world started_client) = Inr False"
  by (simp add: hasOtp_def isVisible_def bind_def or_default_def catch_def await_def
        return_def log_call_def calm_world_def Let_def)

lemma about_blank_not_blocked: "\<not> likelyBlockUrl ''about:blank''"
  by (simp add: likelyBlockUrl_def toLowerCase_def lower_char_def Let_def)

lemma calm_title_not_blocked: "\<not> cloudfrontBlockTitle ''Yelp for Business''"
  by (simp add: cloudfrontBlockTitle_def toLowerCase_def lower_char_def trim_def is_space_def
        Let_def)

lemma calm_no_block:
  "fst (blockSignals calm_world started_client)
     = Inr (''about:blank'', ''Yelp for Business'', False)"
  by (simp add: blockSignals_def isVisible_def bind_def or_default_def catch_def await_def
        sync_def return_def log_call_def calm_world_def started_client_def Let_def
        about_blank_not_blocked calm_title_not_blocked)

theorem absent_challenge_is_noop_witness:
  "maybeHandleCaptcha calm_world example_opts ''navigation'' started_client
     = (Inr (), snd (captchaChallengeVisible calm_world started_client))
   \<and> maybeHandleTwoFactor calm_world example_opts ''navigation'' started_client
     = (Inr (), snd (hasOtp calm_world started_client))
   \<and> maybeThrowIfBlocked calm_world example_opts ''navigation'' started_client
     = (Inr (), snd (blockSignals calm_world started_client))"
  using absent_challenge_is_noop [of calm_world started_client example_opts "''navigation''"
          "''about:blank''" "''Yelp for Business''"]
    calm_no_captcha calm_no_otp calm_no_block
  by simp

section \<open>Failed detection queries\<close>

lemma absent_count:
  "or_default (await (ask_nat (rejections_as_absent w)) c) 0
     = or_default (await (ask_nat w) c) 0"
  by (rule ext)
     (simp add: rejections_as_absent_def or_default_def catch_def await_def return_def Let_def
           split: outcome.splits)

lemma absent_box:
  "or_default (await (ask_box (rejections_as_absent w)) c) None
     = or_default (await (ask_box w) c) None"
  by (rule ext)
     (simp add: rejections_as_absent_def or_default_def catch_def await_def return_def Let_def
           split: outcome.splits)

lemma absent_visible:
  "or_default (isVisible (rejections_as_absent w) l) False = or_default (isVisible w l) False"
  by (rule ext)
     (simp add: rejections_as_absent_def isVisible_def or_default_def catch_def await_def
           return_def Let_def split: outcome.splits)

lemma absent_title:
  "or_default (await (ask_string (rejections_as_absent w)) c) []
     = or_default (await (ask_string w) c) []"
  by (rule ext)
     (simp add: rejections_as_absent_def or_default_def catch_def await_def return_def Let_def
           split: outcome.splits)

lemma absent_sync_string: "sync_string (rejections_as_absent w) = sync_string w"
  by (simp add: rejections_as_absent_def)

lemma absent_scan:
  "scanCaptchaIframes (rejections_as_absent w) idx k = scanCaptchaIframes w idx k"
  by (induction k arbitrary: idx) (simp_all add: absent_box cong: if_cong)

text \<open>
  Claim C7, as amended. In a challenge pass every detection query (iframe count,
  bounding box, element visibility, page title) that rejects is read as zero, no box,
  not visible or the empty title: the three detections compute what they compute in the
  environment where those queries resolve to these defaults. The pass itself fails only
  with an error of the wait (CAPTCHA or two-factor step still present), with the block
  error, or with the failure of a call made while capturing the snapshot; never with
  the rejection of a detection query.
\<close>

theorem detection_query_failures_are_absence:
  "captchaChallengeVisible w = captchaChallengeVisible (rejections_as_absent w)
   \<and> hasOtp w = hasOtp (rejections_as_absent w)
   \<and> blockSignals w = blockSignals (rejections_as_absent w)
   \<and> (case fst (handleChallengesOrBlocks w opts label s) of
         Inr u \<Rightarrow> True
       | Inl e \<Rightarrow> is_challenge_failure e \<and> (\<forall>c. e \<noteq> CallRejected c))"
proof (intro conjI)
  show "captchaChallengeVisible w = captchaChallengeVisible (rejections_as_absent w)"
    by (simp add: captchaChallengeVisible_def absent_count absent_scan)
  show "hasOtp w = hasOtp (rejections_as_absent w)"
    by (simp add: hasOtp_def absent_visible cong: if_cong)
  show "blockSignals w = blockSignals (rejections_as_absent w)"
    by (simp add: blockSignals_def absent_visible absent_title absent_sync_string)
  show "case fst (handleChallengesOrBlocks w opts label s) of
          Inr u \<Rightarrow> True
        | Inl e \<Rightarrow> is_challenge_failure e \<and> (\<forall>c. e \<noteq> CallRejected c)"
  proof (cases "fst (handleChallengesOrBlocks w opts label s)")
    case (Inl e)
    then have "is_challenge_failure e"
      by (rule fails_onlyD [OF fails_only_handleChallengesOrBlocks])
    then have "is_challenge_failure e \<and> (\<forall>c. e \<noteq> CallRejected c)"
      by (cases e) simp_all
    with Inl show ?thesis by simp
  next
    case (Inr u)
    then show ?thesis by simp
  qed
qed

text \<open>
  The claim as stated fails: with a large CAPTCHA iframe on the page, the pass captures a
  snapshot, and the title query made by the capture rejects; the pass fails with that
  rejection, which is neither a challenge timeout nor a block.
\<close>

theorem detection_pass_fails_by_snapshot_query:
  "fst (handleChallengesOrBlocks captcha_title_rejects_world example_opts ''navigation''
          started_client)
     = Inl (SnapshotFailed PageTitle)"
  by (simp add: handleChallengesOrBlocks_def maybeHandleCaptcha_def
        captchaChallengeVisible_def snapshot_def captureDebugArtifacts_def in_snapshot_def
        all2_def bind_def or_default_def catch_def await_def sync_def return_def throw_def
        log_call_def captcha_title_rejects_world_def two_iframe_world_def
        two_iframe_boxes_def calm_world_def started_client_def example_opts_def Let_def
        numeral_2_eq_2)

section \<open>The login-form predicate\<close>

lemma email_password_distinct: "emailInput \<noteq> passwordInput"
  by (simp add: emailInput_def passwordInput_def)

text \<open>
  Claim C9. The login-form-visibility predicate of \<^verbatim>\<open>ensureAuthenticated\<close> and of the
  post-submit re-check makes exactly one call, the visibility query on the first element
  matching the email selector, and returns true if and only if that query resolves to
  true. The password locator is a different locator and is not queried, so whatever the
  page answers about the password field has no influence on the result.
\<close>

theorem login_visible_iff_email_visible:
  "isEmailPasswordLoginVisible w s
     = (Inr (ask_bool w (calls s @ [LocatorFirstIsVisible emailInput]) = Resolves True),
        log_call (LocatorFirstIsVisible emailInput) s)
   \<and> performed (isEmailPasswordLoginVisible w) s = [LocatorFirstIsVisible emailInput]
   \<and> LocatorFirstIsVisible passwordInput
        \<notin> set (performed (isEmailPasswordLoginVisible w) s)"
proof -
  have eq: "isEmailPasswordLoginVisible w s
     = (Inr (ask_bool w (calls s @ [LocatorFirstIsVisible emailInput]) = Resolves True),
        log_call (LocatorFirstIsVisible emailInput) s)"
    by (auto simp: isEmailPasswordLoginVisible_def isVisible_def or_default_def catch_def
          await_def return_def log_call_def Let_def split: outcome.splits)
  then have p: "performed (isEmailPasswordLoginVisible w) s
                  = [LocatorFirstIsVisible emailInput]"
    by (simp add: performed_def log_call_def)
  from eq p email_password_distinct show ?thesis by simp
qed

section \<open>Calls made by the challenge passes and by the login\<close>

lemma detection_is_challenge_call: "is_detection_query c \<Longrightarrow> is_challenge_call c"
  by (simp add: is_challenge_call_def)

lemma snapshot_is_challenge_call: "is_snapshot_call c \<Longrightarrow> is_challenge_call c"
  by (simp add: is_challenge_call_def)

lemma only_calls_maybeHandleCaptcha:
  "only_calls is_challenge_call (maybeHandleCaptcha w opts label)"
  unfolding maybeHandleCaptcha_def
  apply (rule only_calls_bind)
   apply (rule only_calls_mono [OF only_calls_captchaChallengeVisible])
   apply (erule detection_is_challenge_call)
  apply (simp add: only_calls_return)
  apply (intro impI only_calls_bind only_calls_catch only_calls_throw only_calls_await)
   apply (rule only_calls_mono [OF only_calls_snapshot])
   apply (erule snapshot_is_challenge_call)
  apply (simp add: is_challenge_call_def)
  done

lemma only_calls_maybeHandleTwoFactor:
  "only_calls is_challenge_call (maybeHandleTwoFactor w opts label)"
  unfolding maybeHandleTwoFactor_def
  apply (rule only_calls_bind)
   apply (rule only_calls_mono [OF only_calls_hasOtp])
   apply (erule detection_is_challenge_call)
  apply (simp add: only_calls_return)
  apply (intro impI only_calls_bind only_calls_catch only_calls_throw only_calls_await)
   apply (rule only_calls_mono [OF only_calls_snapshot])
   apply (erule snapshot_is_challenge_call)
  apply (simp add: is_challenge_call_def)
  done

lemma only_calls_maybeThrowIfBlocked:
  "only_calls is_challenge_call (maybeThrowIfBlocked w opts label)"
  unfolding maybeThrowIfBlocked_def
  apply (rule only_calls_bind)
   apply (rule only_calls_mono [OF only_calls_blockSignals])
   apply (erule detection_is_challenge_call)
  apply (simp add: only_calls_return split: prod.split)
  apply (intro impI allI only_calls_bind only_calls_throw)
  apply (rule only_calls_mono [OF only_calls_snapshot])
  apply (erule snapshot_is_challenge_call)
  done

lemma only_calls_handleChallengesOrBlocks:
  "only_calls is_challenge_call (handleChallengesOrBlocks w opts label)"
  unfolding handleChallengesOrBlocks_def
  by (intro only_calls_bind only_calls_maybeHandleCaptcha only_calls_maybeHandleTwoFactor
        only_calls_maybeThrowIfBlocked)

lemma at_mostI:
  "(\<And>s. \<exists>es. calls (snd (m s)) = calls s @ es \<and> length (filter P es) \<le> n)
     \<Longrightarrow> at_most n P m"
  by (simp add: at_most_def)

lemma at_mostD:
  "at_most n P m \<Longrightarrow> \<exists>es. calls (snd (m s)) = calls s @ es \<and> length (filter P es) \<le> n"
  by (simp add: at_most_def)

lemma at_most_performed:
  assumes "at_most n P m"
  shows "length (filter P (performed m s)) \<le> n"
proof -
  from at_mostD [OF assms, of s] obtain es
    where es: "calls (snd (m s)) = calls s @ es" "length (filter P es) \<le> n" by blast
  then have "performed m s = es" by (simp add: performed_def)
  with es show ?thesis by simp
qed

lemma filter_none: "list_all (\<lambda>c. \<not> P c) es \<Longrightarrow> filter P es = []"
  by (induction es) simp_all

lemma at_most_none: "only_calls (\<lambda>c. \<not> P c) m \<Longrightarrow> at_most n P m"
proof (rule at_mostI)
  fix s
  assume "only_calls (\<lambda>c. \<not> P c) m"
  from only_callsD [OF this, of s] obtain es
    where "calls (snd (m s)) = calls s @ es" "list_all (\<lambda>c. \<not> P c) es" by blast
  then have "calls (snd (m s)) = calls s @ es \<and> length (filter P es) \<le> n"
    by (simp add: filter_none)
  then show "\<exists>es. calls (snd (m s)) = calls s @ es \<and> length (filter P es) \<le> n" ..
qed

lemma at_most_after:
  assumes "only_calls (\<lambda>c. \<not> P c) m" and "\<And>x. at_most n P (f x)"
  shows "at_most n P (bind m f)"
proof (rule at_mostI)
  fix s
  obtain r s1 where ms: "m s = (r, s1)" by (cases "m s")
  from only_callsD [OF assms(1), of s] ms obtain es
    where es: "calls s1 = calls s @ es" "list_all (\<lambda>c. \<not> P c) es" by auto
  show "\<exists>es. calls (snd (bind m f s)) = calls s @ es \<and> length (filter P es) \<le> n"
  proof (cases r)
    case (Inl e)
    with ms es have "calls (snd (bind m f s)) = calls s @ es \<and> length (filter P es) \<le> n"
      by (simp add: bind_def filter_none)
    then show ?thesis ..
  next
    case (Inr x)
    from at_mostD [OF assms(2), of x s1] obtain fs where
      fs: "calls (snd (f x s1)) = calls s1 @ fs" "length (filter P fs) \<le> n" by blast
    with ms Inr es
    have "calls (snd (bind m f s)) = calls s @ (es @ fs) \<and> length (filter P (es @ fs)) \<le> n"
      by (simp add: bind_def filter_none)
    then show ?thesis ..
  qed
qed

lemma at_most_before:
  assumes "at_most n P m" and "\<And>x. only_calls (\<lambda>c. \<not> P c) (f x)"
  shows "at_most n P (bind m f)"
proof (rule at_mostI)
  fix s
  obtain r s1 where ms: "m s = (r, s1)" by (cases "m s")
  from at_mostD [OF assms(1), of s] ms obtain es
    where es: "calls s1 = calls s @ es" "length (filter P es) \<le> n" by auto
  show "\<exists>es. calls (snd (bind m f s)) = calls s @ es \<and> length (filter P es) \<le> n"
  proof (cases r)
    case (Inl e)
    with ms es have "calls (snd (bind m f s)) = calls s @ es \<and> length (filter P es) \<le> n"
      by (simp add: bind_def)
    then show ?thesis ..
  next
    case (Inr x)
    from only_callsD [OF assms(2), of x s1] obtain fs where
      fs: "calls (snd (f x s1)) = calls s1 @ fs" "list_all (\<lambda>c. \<not> P c) fs" by blast
    with ms Inr es
    have "calls (snd (bind m f s)) = calls s @ (es @ fs) \<and> length (filter P (es @ fs)) \<le> n"
      by (simp add: bind_def filter_none)
    then show ?thesis ..
  qed
qed

lemma at_most_catch_handler_none:
  assumes "at_most n P m" and "\<And>e. only_calls (\<lambda>c. \<not> P c) (f e)"
  shows "at_most n P (catch m f)"
proof (rule at_mostI)
  fix s
  obtain r s1 where ms: "m s = (r, s1)" by (cases "m s")
  from at_mostD [OF assms(1), of s] ms obtain es
    where es: "calls s1 = calls s @ es" "length (filter P es) \<le> n" by auto
  show "\<exists>es. calls (snd (catch m f s)) = calls s @ es \<and> length (filter P es) \<le> n"
  proof (cases r)
    case (Inr x)
    with ms es have "calls (snd (catch m f s)) = calls s @ es \<and> length (filter P es) \<le> n"
      by (simp add: catch_def)
    then show ?thesis ..
  next
    case (Inl e)
    from only_callsD [OF assms(2), of e s1] obtain fs where
      fs: "calls (snd (f e s1)) = calls s1 @ fs" "list_all (\<lambda>c. \<not> P c) fs" by blast
    with ms Inl es
    have "calls (snd (catch m f s)) = calls s @ (es @ fs) \<and> length (filter P (es @ fs)) \<le> n"
      by (simp add: catch_def filter_none)
    then show ?thesis ..
  qed
qed

lemma at_most_one_await: "at_most (Suc 0) P (await ask c)"
  by (rule at_mostI, rule exI [of _ "[c]"])
     (simp add: await_def log_call_def Let_def split: outcome.splits)

lemma at_most_if:
  "(b \<Longrightarrow> at_most n P m1) \<Longrightarrow> (\<not> b \<Longrightarrow> at_most n P m2) \<Longrightarrow> at_most n P (if b then m1 else m2)"
  by simp

lemma challenge_call_not_click: "is_challenge_call c \<Longrightarrow> \<not> is_click c"
  by (cases c) (simp_all add: is_challenge_call_def)

lemma challenge_call_not_fill: "is_challenge_call c \<Longrightarrow> \<not> is_fill_of l c"
  by (cases c) (simp_all add: is_challenge_call_def)

lemma click_not_fill: "is_click c \<Longrightarrow> \<not> is_fill_of l c"
  by (cases c) simp_all

lemma only_calls_visible: "only_calls is_challenge_call (or_default (isVisible w l) d)"
  unfolding isVisible_def
  by (intro only_calls_or_default only_calls_await) (simp add: is_challenge_call_def)

lemma only_calls_snapshot_throw:
  "only_calls is_challenge_call (bind (snapshot w opts label) (\<lambda>dir. throw (f dir)))"
  by (intro only_calls_bind only_calls_throw only_calls_mono [OF only_calls_snapshot]
        snapshot_is_challenge_call)

lemma only_calls_login_verify: "only_calls is_challenge_call (login_verify w opts)"
  unfolding login_verify_def isEmailPasswordLoginVisible_def
  by (intro only_calls_bind only_calls_visible)
     (simp add: only_calls_snapshot_throw only_calls_return)

lemma only_calls_wait_url:
  "only_calls is_challenge_call (or_default (await (ask_unit w) (PageWaitFor p t)) ())"
  by (intro only_calls_or_default only_calls_await) (simp add: is_challenge_call_def)

lemma only_calls_clickSubmit:
  "only_calls (\<lambda>c. is_challenge_call c \<or> is_click c) (clickSubmit w opts)"
  unfolding clickSubmit_def
  apply (rule only_calls_catch)
   apply (rule only_calls_bind)
    apply (rule only_calls_mono [OF only_calls_visible], simp)
   apply (simp add: only_calls_await)
  apply (rule only_calls_mono [OF only_calls_snapshot_throw], simp)
  done

lemma at_most_one_clickSubmit: "at_most (Suc 0) is_click (clickSubmit w opts)"
  unfolding clickSubmit_def
  apply (rule at_most_catch_handler_none)
   apply (rule at_most_after)
    apply (rule only_calls_mono [OF only_calls_visible], erule challenge_call_not_click)
   apply (simp add: at_most_one_await)
  apply (rule only_calls_mono [OF only_calls_snapshot_throw], erule challenge_call_not_click)
  done

lemma at_most_one_click_login: "at_most (Suc 0) is_click (login w opts creds)"
  unfolding login_def login_submit_def
  apply (rule at_most_before)
   apply (rule at_most_after)
    apply (rule only_calls_mono [OF only_calls_handleChallengesOrBlocks])
    apply (erule challenge_call_not_click)
   apply (rule at_most_after)
    apply (rule only_calls_mono [OF only_calls_visible], erule challenge_call_not_click)
   apply (rule at_most_after)
    apply (rule only_calls_mono [OF only_calls_visible], erule challenge_call_not_click)
   apply (rule at_most_if)
    apply (rule at_most_none)
    apply (rule only_calls_mono [OF only_calls_snapshot_throw], erule challenge_call_not_click)
   apply (rule at_most_after)
    apply (rule only_calls_await, simp)
   apply (rule at_most_after)
    apply (rule only_calls_await, simp)
   apply (rule at_most_before)
    apply (rule at_most_one_clickSubmit)
   apply (rule only_calls_bind)
    apply (rule only_calls_mono [OF only_calls_wait_url], erule challenge_call_not_click)
   apply (rule only_calls_mono [OF only_calls_handleChallengesOrBlocks])
   apply (erule challenge_call_not_click)
  apply (rule only_calls_mono [OF only_calls_login_verify], erule challenge_call_not_click)
  done

lemma only_calls_after_fill:
  "only_calls (\<lambda>c. \<not> is_fill_of l c)
     (bind (clickSubmit w opts) (\<lambda>_.
      bind (or_default (await (ask_unit w) (PageWaitFor UrlLeftLogin 45000)) ()) (\<lambda>_.
        handleChallengesOrBlocks w opts ''login-post-submit'')))"
  apply (intro only_calls_bind)
    apply (rule only_calls_mono [OF only_calls_clickSubmit])
    apply (auto dest: challenge_call_not_fill click_not_fill)[1]
   apply (rule only_calls_mono [OF only_calls_wait_url], erule challenge_call_not_fill)
  apply (rule only_calls_mono [OF only_calls_handleChallengesOrBlocks])
  apply (erule challenge_call_not_fill)
  done

lemma at_most_one_fill_email_login:
  "at_most (Suc 0) (is_fill_of emailInput) (login w opts creds)"
  unfolding login_def login_submit_def
  apply (rule at_most_before)
   apply (rule at_most_after)
    apply (rule only_calls_mono [OF only_calls_handleChallengesOrBlocks])
    apply (erule challenge_call_not_fill)
   apply (rule at_most_after)
    apply (rule only_calls_mono [OF only_calls_visible], erule challenge_call_not_fill)
   apply (rule at_most_after)
    apply (rule only_calls_mono [OF only_calls_visible], erule challenge_call_not_fill)
   apply (rule at_most_if)
    apply (rule at_most_none)
    apply (rule only_calls_mono [OF only_calls_snapshot_throw], erule challenge_call_not_fill)
   apply (rule at_most_before)
    apply (rule at_most_one_await)
   apply (rule only_calls_bind)
    apply (rule only_calls_await, simp add: email_password_distinct [symmetric])
   apply (rule only_calls_after_fill)
  apply (rule only_calls_mono [OF only_calls_login_verify], erule challenge_call_not_fill)
  done

lemma at_most_one_fill_password_login:
  "at_most (Suc 0) (is_fill_of passwordInput) (login w opts creds)"
  unfolding login_def login_submit_def
  apply (rule at_most_before)
   apply (rule at_most_after)
    apply (rule only_calls_mono [OF only_calls_handleChallengesOrBlocks])
    apply (erule challenge_call_not_fill)
   apply (rule at_most_after)
    apply (rule only_calls_mono [OF only_calls_visible], erule challenge_call_not_fill)
   apply (rule at_most_after)
    apply (rule only_calls_mono [OF only_calls_visible], erule challenge_call_not_fill)
   apply (rule at_most_if)
    apply (rule at_most_none)
    apply (rule only_calls_mono [OF only_calls_snapshot_throw], erule challenge_call_not_fill)
   apply (rule at_most_after)
    apply (rule only_calls_await, simp add: email_password_distinct)
   apply (rule at_most_before)
    apply (rule at_most_one_await)
   apply (rule only_calls_after_fill)
  apply (rule only_calls_mono [OF only_calls_login_verify], erule challenge_call_not_fill)
  done

section \<open>The login orchestration\<close>

lemmas io_defs =
  bind_def catch_def or_default_def await_def sync_def return_def throw_def all2_def
  log_call_def isVisible_def

lemmas challenge_defs =
  handleChallengesOrBlocks_def maybeHandleCaptcha_def captchaChallengeVisible_def
  maybeHandleTwoFactor_def hasOtp_def maybeThrowIfBlocked_def blockSignals_def
  likelyBlockUrl_def cloudfrontBlockTitle_def toLowerCase_def lower_char_def trim_def
  is_space_def

lemmas snapshot_defs =
  snapshot_def captureDebugArtifacts_def in_snapshot_def isoTimestampForPath_def
  safeSegment_def strip_dashes_def is_alnum_lower_def toLowerCase_def lower_char_def
  trim_def is_space_def

lemmas locator_defs =
  emailInput_def passwordInput_def submitBySelector_def captchaIframes_def otpInput_def
  twoFactorText_def cloudfrontText_def knownSelectors_def

text \<open>
  Claim C6, as amended. When the submit step of the login has completed and the login
  form is still visible at the re-check, the login fails: with the login-did-not-succeed
  error carrying the snapshot directory when the snapshot is captured, and with the
  failure of the capture otherwise. In every run of the login the submit is not retried:
  at most one click is made, and each of the two fields is filled at most once.
\<close>

theorem login_still_visible_fails_without_retry:
  assumes "login_submit w opts creds s = (Inr (), s1)"
    and "ask_bool w (calls s1 @ [LocatorFirstIsVisible emailInput]) = Resolves True"
  shows "fst (login w opts creds s)
           = (case fst (snapshot w opts ''biz-login-still-visible''
                          (log_call (LocatorFirstIsVisible emailInput) s1)) of
                Inl e \<Rightarrow> Inl e
              | Inr dir \<Rightarrow> Inl (LoginDidNotSucceed dir))
         \<and> ((\<exists>dir. fst (login w opts creds s) = Inl (LoginDidNotSucceed dir))
              \<or> (\<exists>c. fst (login w opts creds s) = Inl (SnapshotFailed c)))
         \<and> length (filter is_click (performed (login w opts creds) s)) \<le> 1
         \<and> length (filter (is_fill_of emailInput) (performed (login w opts creds) s)) \<le> 1
         \<and> length (filter (is_fill_of passwordInput) (performed (login w opts creds) s)) \<le> 1"
proof -
  let ?s2 = "log_call (LocatorFirstIsVisible emailInput) s1"
  let ?snap = "snapshot w opts ''biz-login-still-visible'' ?s2"
  have recheck: "isEmailPasswordLoginVisible w s1 = (Inr True, ?s2)"
    using assms(2)
    by (simp add: isEmailPasswordLoginVisible_def isVisible_def or_default_def catch_def
          await_def return_def log_call_def Let_def)
  have result: "fst (login w opts creds s)
                  = (case fst ?snap of Inl e \<Rightarrow> Inl e | Inr dir \<Rightarrow> Inl (LoginDidNotSucceed dir))"
    using assms(1) recheck
    by (cases ?snap) (simp add: login_def login_verify_def bind_def throw_def split: sum.splits)
  have kinds: "(\<exists>dir. fst (login w opts creds s) = Inl (LoginDidNotSucceed dir))
                 \<or> (\<exists>c. fst (login w opts creds s) = Inl (SnapshotFailed c))"
  proof (cases "fst ?snap")
    case (Inl e)
    then have "is_snapshot_failure e" by (rule fails_onlyD [OF fails_only_snapshot])
    then obtain c where "e = SnapshotFailed c" by (cases e) simp_all
    with Inl result show ?thesis by simp
  next
    case (Inr dir)
    with result show ?thesis by simp
  qed
  from result kinds
    at_most_performed [OF at_most_one_click_login, of w opts creds s]
    at_most_performed [OF at_most_one_fill_email_login, of w opts creds s]
    at_most_performed [OF at_most_one_fill_password_login, of w opts creds s]
  show ?thesis by simp
qed

lemma login_stuck_submit:
  "fst (login_submit login_stuck_world example_opts example_creds started_client) = Inr ()"
  by (simp add: login_submit_def clickSubmit_def io_defs challenge_defs locator_defs
        login_stuck_world_def calm_world_def example_opts_def example_creds_def
        started_client_def Let_def)

theorem login_still_visible_fails_without_retry_witness:
  "fst (login login_stuck_world example_opts example_creds started_client)
     = (case fst (snapshot login_stuck_world example_opts ''biz-login-still-visible''
                   (log_call (LocatorFirstIsVisible emailInput)
                      (snd (login_submit login_stuck_world example_opts example_creds
                              started_client)))) of
          Inl e \<Rightarrow> Inl e
        | Inr dir \<Rightarrow> Inl (LoginDidNotSucceed dir))
   \<and> length (filter is_click
        (performed (login login_stuck_world example_opts example_creds) started_client)) \<le> 1"
proof -
  let ?s1 = "snd (login_submit login_stuck_world example_opts example_creds started_client)"
  have sub: "login_submit login_stuck_world example_opts example_creds started_client
              = (Inr (), ?s1)"
    using login_stuck_submit by (simp add: prod_eq_iff)
  have still: "ask_bool login_stuck_world (calls ?s1 @ [LocatorFirstIsVisible emailInput])
                 = Resolves True"
    by (simp add: login_stuck_world_def)
  from login_still_visible_fails_without_retry [OF sub still] show ?thesis by simp
qed

text \<open>
  The claim as stated fails: the login form is still visible after the submit, and the
  page rejects the title query of the snapshot; the login fails with that rejection, not
  with the login-did-not-succeed error, and the error carries no snapshot directory.
\<close>

theorem login_still_visible_snapshot_fails:
  "fst (login login_stuck_title_rejects_world example_opts example_creds started_client)
     = Inl (SnapshotFailed PageTitle)"
  by (simp add: login_def login_submit_def login_verify_def clickSubmit_def
        isEmailPasswordLoginVisible_def io_defs challenge_defs snapshot_defs locator_defs
        login_stuck_title_rejects_world_def login_stuck_world_def calm_world_def
        example_opts_def example_creds_def started_client_def Let_def)

lemma login_stuck_result:
  "fst (login login_stuck_world example_opts example_creds started_client)
     = Inl (LoginDidNotSucceed
              ''artifacts/yelp-biz/2025-01-01T00-00-00-000Z-biz-login-still-visible'')"
  by (simp add: login_def login_submit_def login_verify_def clickSubmit_def
        isEmailPasswordLoginVisible_def io_defs challenge_defs snapshot_defs locator_defs
        login_stuck_world_def calm_world_def
        example_opts_def example_creds_def started_client_def Let_def)

section \<open>The host post-condition of \<^verbatim>\<open>ensureAuthenticated\<close>\<close>

lemma bind_throw_fails: "fst (bind m (\<lambda>x. throw (f x)) s) \<noteq> Inr y"
  by (simp add: bind_def throw_def split: prod.splits sum.splits)

lemma ensure_host_success:
  assumes "ensure_host w opts s0 = (Inr (), sf)"
  shows "last (calls sf) = PageUrl
         \<and> (\<exists>host. URL_host w (sync_string w (calls sf)) = Some host
                    \<and> host \<noteq> ''business.yelp.com'')"
proof -
  obtain r1 s1 where g: "goto w opts ''https://biz.yelp.com/'' s0 = (r1, s1)"
    by (cases "goto w opts ''https://biz.yelp.com/'' s0")
  let ?s2 = "log_call PageUrl s1"
  let ?url = "sync_string w (calls ?s2)"
  from assms g have r1: "r1 = Inr ()"
    by (cases r1) (simp_all add: ensure_host_def bind_def)
  show ?thesis
  proof (cases "URL_host w ?url")
    case None
    with assms g r1 show ?thesis
      by (simp add: ensure_host_def bind_def sync_def throw_def Let_def)
  next
    case (Some host)
    show ?thesis
    proof (cases "host = ''business.yelp.com''")
      case True
      with assms g r1 Some
      have "bind (snapshot w opts ''biz-auth-redirected-to-marketing'')
              (\<lambda>dir. throw (RedirectedToMarketing dir)) ?s2 = (Inr (), sf)"
        by (simp add: ensure_host_def bind_def sync_def Let_def)
      then have "fst (bind (snapshot w opts ''biz-auth-redirected-to-marketing'')
                        (\<lambda>dir. throw (RedirectedToMarketing dir)) ?s2) = Inr ()"
        by simp
      moreover
      have "fst (bind (snapshot w opts ''biz-auth-redirected-to-marketing'')
                   (\<lambda>dir. throw (RedirectedToMarketing dir)) ?s2) \<noteq> Inr ()"
        by (rule bind_throw_fails)
      ultimately show ?thesis by simp
    next
      case False
      with assms g r1 Some have "sf = ?s2"
        by (simp add: ensure_host_def bind_def sync_def return_def Let_def)
      with Some False show ?thesis by (simp add: log_call_def)
    qed
  qed
qed

text \<open>
  Claim C2, as amended. After the login step (or its no-op), \<^verbatim>\<open>ensureAuthenticated\<close>
  navigates to the portal home and reads the host of the resulting URL. For every run in
  which that host is the marketing host \<^verbatim>\<open>business.yelp.com\<close>, the operation fails: with
  the redirect error carrying the snapshot directory when the snapshot is captured, and
  with the failure of the capture when the capture rejects. On success the last call is
  that reading of the URL, and the host it yields is not the marketing host.
\<close>

theorem ensureAuthenticated_rejects_marketing_host:
  "(fst (ensureAuthenticated w opts creds s) = Inr () \<longrightarrow>
      last (calls (snd (ensureAuthenticated w opts creds s))) = PageUrl
      \<and> (\<exists>host. URL_host w (sync_string w (calls (snd (ensureAuthenticated w opts creds s))))
                   = Some host
                 \<and> host \<noteq> ''business.yelp.com''))
   \<and> (ensure_login w opts creds s = (Inr (), s0)
      \<and> goto w opts ''https://biz.yelp.com/'' s0 = (Inr (), s1)
      \<and> URL_host w (sync_string w (calls s1 @ [PageUrl])) = Some ''business.yelp.com'' \<longrightarrow>
      fst (ensureAuthenticated w opts creds s)
        = (case fst (snapshot w opts ''biz-auth-redirected-to-marketing''
                       (log_call PageUrl s1)) of
             Inl e \<Rightarrow> Inl e
           | Inr dir \<Rightarrow> Inl (RedirectedToMarketing dir)))"
proof (rule conjI)
  show "fst (ensureAuthenticated w opts creds s) = Inr () \<longrightarrow>
      last (calls (snd (ensureAuthenticated w opts creds s))) = PageUrl
      \<and> (\<exists>host. URL_host w (sync_string w (calls (snd (ensureAuthenticated w opts creds s))))
                   = Some host
                 \<and> host \<noteq> ''business.yelp.com'')"
  proof (rule impI)
    assume ok: "fst (ensureAuthenticated w opts creds s) = Inr ()"
    obtain r0 s0' where l: "ensure_login w opts creds s = (r0, s0')"
      by (cases "ensure_login w opts creds s")
    with ok have r0: "r0 = Inr ()"
      by (cases r0) (simp_all add: ensureAuthenticated_def bind_def)
    let ?sf = "snd (ensureAuthenticated w opts creds s)"
    from l r0 have "ensureAuthenticated w opts creds s = ensure_host w opts s0'"
      by (simp add: ensureAuthenticated_def bind_def)
    with ok have "ensure_host w opts s0' = (Inr (), ?sf)"
      by (simp add: prod_eq_iff)
    from ensure_host_success [OF this]
    show "last (calls ?sf) = PageUrl
          \<and> (\<exists>host. URL_host w (sync_string w (calls ?sf)) = Some host
                     \<and> host \<noteq> ''business.yelp.com'')" .
  qed
next
  show "ensure_login w opts creds s = (Inr (), s0)
      \<and> goto w opts ''https://biz.yelp.com/'' s0 = (Inr (), s1)
      \<and> URL_host w (sync_string w (calls s1 @ [PageUrl])) = Some ''business.yelp.com'' \<longrightarrow>
      fst (ensureAuthenticated w opts creds s)
        = (case fst (snapshot w opts ''biz-auth-redirected-to-marketing''
                       (log_call PageUrl s1)) of
             Inl e \<Rightarrow> Inl e
           | Inr dir \<Rightarrow> Inl (RedirectedToMarketing dir))"
    by (cases "snapshot w opts ''biz-auth-redirected-to-marketing'' (log_call PageUrl s1)")
       (simp add: ensureAuthenticated_def ensure_host_def bind_def sync_def throw_def
          log_call_def Let_def split: sum.splits)
qed

lemmas client_defs =
  ensureAuthenticated_def ensure_login_def ensure_host_def start_def page_def goto_def
  maybeDismissOverlays_def isEmailPasswordLoginVisible_def login_def login_submit_def
  login_verify_def clickSubmit_def new_client_def challengeTimeoutMs_def
  assign_context_def assign_page_def

lemmas example_defs =
  calm_world_def redirect_world_def example_opts_def example_creds_def started_client_def
  example_URL_host_def

text \<open>
  The claim as stated fails twice. In a logged-in session whose portal home redirects to
  the public site \<^verbatim>\<open>www.yelp.com\<close>, \<^verbatim>\<open>ensureAuthenticated\<close> succeeds although the resulting
  host is not the authenticated host \<^verbatim>\<open>biz.yelp.com\<close>. And in a session whose portal home
  redirects to the marketing site while the page rejects the title query of the
  snapshot, it fails with that rejection: an error that carries no snapshot location.
\<close>

theorem ensureAuthenticated_public_host_and_failed_snapshot:
  "fst (ensureAuthenticated (redirect_world ''https://www.yelp.com/'') example_opts None
          new_client) = Inr ()
   \<and> URL_host (redirect_world ''https://www.yelp.com/'')
        (sync_string (redirect_world ''https://www.yelp.com/'')
           (calls (snd (ensureAuthenticated (redirect_world ''https://www.yelp.com/'')
                          example_opts None new_client))))
       = Some ''www.yelp.com''
   \<and> fst (ensureAuthenticated marketing_title_rejects_world example_opts None new_client)
       = Inl (SnapshotFailed PageTitle)"
  by (simp add: client_defs io_defs challenge_defs snapshot_defs locator_defs example_defs
        marketing_title_rejects_world_def Let_def)

lemma marketing_login_step:
  "fst (ensure_login (redirect_world ''https://business.yelp.com/'') example_opts None
          new_client) = Inr ()"
  by (simp add: client_defs io_defs challenge_defs locator_defs example_defs Let_def)

lemma marketing_goto_step:
  "fst (goto (redirect_world ''https://business.yelp.com/'') example_opts
          ''https://biz.yelp.com/''
          (snd (ensure_login (redirect_world ''https://business.yelp.com/'') example_opts
                  None new_client))) = Inr ()"
  by (simp add: client_defs io_defs challenge_defs locator_defs example_defs Let_def)

lemma marketing_host_step:
  "URL_host (redirect_world ''https://business.yelp.com/'')
     (sync_string (redirect_world ''https://business.yelp.com/'')
        (calls (snd (goto (redirect_world ''https://business.yelp.com/'') example_opts
                       ''https://biz.yelp.com/''
                       (snd (ensure_login (redirect_world ''https://business.yelp.com/'')
                               example_opts None new_client))))
         @ [PageUrl]))
     = Some ''business.yelp.com''"
  by (simp add: client_defs io_defs challenge_defs locator_defs example_defs Let_def)

lemma calm_ensureAuthenticated:
  "fst (ensureAuthenticated calm_world example_opts None new_client) = Inr ()"
  by (simp add: client_defs io_defs challenge_defs locator_defs example_defs Let_def)

theorem ensureAuthenticated_rejects_marketing_host_witness:
  "(\<exists>host. URL_host calm_world
              (sync_string calm_world
                 (calls (snd (ensureAuthenticated calm_world example_opts None new_client))))
            = Some host
          \<and> host \<noteq> ''business.yelp.com'')
   \<and> (\<exists>e. fst (ensureAuthenticated (redirect_world ''https://business.yelp.com/'')
                  example_opts None new_client) = Inl e)"
proof -
  let ?w = "redirect_world ''https://business.yelp.com/''"
  let ?s0 = "snd (ensure_login ?w example_opts None new_client)"
  let ?s1 = "snd (goto ?w example_opts ''https://biz.yelp.com/'' ?s0)"
  have h1: "ensure_login ?w example_opts None new_client = (Inr (), ?s0)"
    using marketing_login_step by (simp add: prod_eq_iff)
  have h2: "goto ?w example_opts ''https://biz.yelp.com/'' ?s0 = (Inr (), ?s1)"
    using marketing_goto_step by (simp add: prod_eq_iff)
  from ensureAuthenticated_rejects_marketing_host
         [of calm_world example_opts None new_client]
       calm_ensureAuthenticated
  have first: "\<exists>host. URL_host calm_world
              (sync_string calm_world
                 (calls (snd (ensureAuthenticated calm_world example_opts None new_client))))
            = Some host
          \<and> host \<noteq> ''business.yelp.com''"
    by blast
  from ensureAuthenticated_rejects_marketing_host
         [of ?w example_opts None new_client ?s0 ?s1]
       h1 h2 marketing_host_step
  have "fst (ensureAuthenticated ?w example_opts None new_client)
          = (case fst (snapshot ?w example_opts ''biz-auth-redirected-to-marketing''
                         (log_call PageUrl ?s1)) of
               Inl e \<Rightarrow> Inl e
             | Inr dir \<Rightarrow> Inl (RedirectedToMarketing dir))"
    by blast
  then have "\<exists>e. fst (ensureAuthenticated ?w example_opts None new_client) = Inl e"
    by (simp split: sum.splits)
  with first show ?thesis by blast
qed

lemma marketing_result:
  "fst (ensureAuthenticated (redirect_world ''https://business.yelp.com/'') example_opts None
          new_client)
     = Inl (RedirectedToMarketing
              ''artifacts/yelp-biz/2025-01-01T00-00-00-000Z-biz-auth-redirected-to-marketing'')"
  by (simp add: client_defs io_defs challenge_defs snapshot_defs locator_defs example_defs
        Let_def)

section \<open>Computations that leave the session flags alone\<close>

lemma keeps_flagsI:
  "(\<And>s. context_set (snd (m s)) = context_set s \<and> page_set (snd (m s)) = page_set s)
     \<Longrightarrow> keeps_flags m"
  by (simp add: keeps_flags_def)

lemma keeps_flagsD:
  "keeps_flags m \<Longrightarrow> context_set (snd (m s)) = context_set s \<and> page_set (snd (m s)) = page_set s"
  by (simp add: keeps_flags_def)

lemma keeps_flags_return: "keeps_flags (return x)"
  by (rule keeps_flagsI) (simp add: return_def)

lemma keeps_flags_throw: "keeps_flags (throw e)"
  by (rule keeps_flagsI) (simp add: throw_def)

lemma keeps_flags_await: "keeps_flags (await ask c)"
  by (rule keeps_flagsI) (simp add: await_def log_call_def Let_def split: outcome.splits)

lemma keeps_flags_sync: "keeps_flags (sync ask c)"
  by (rule keeps_flagsI) (simp add: sync_def log_call_def Let_def)

lemma keeps_flags_page: "keeps_flags page"
  by (rule keeps_flagsI) (simp add: page_def return_def throw_def)

lemma keeps_flags_bind:
  assumes "keeps_flags m" and "\<And>x. keeps_flags (f x)"
  shows "keeps_flags (bind m f)"
proof (rule keeps_flagsI)
  fix s
  obtain r s1 where ms: "m s = (r, s1)" by (cases "m s")
  from keeps_flagsD [OF assms(1), of s] ms
  have s1: "context_set s1 = context_set s \<and> page_set s1 = page_set s" by simp
  show "context_set (snd (bind m f s)) = context_set s \<and> page_set (snd (bind m f s)) = page_set s"
  proof (cases r)
    case (Inl e)
    with ms s1 show ?thesis by (simp add: bind_def)
  next
    case (Inr x)
    with ms s1 keeps_flagsD [OF assms(2), of x s1] show ?thesis by (simp add: bind_def)
  qed
qed

lemma keeps_flags_catch:
  assumes "keeps_flags m" and "\<And>e. keeps_flags (f e)"
  shows "keeps_flags (catch m f)"
proof (rule keeps_flagsI)
  fix s
  obtain r s1 where ms: "m s = (r, s1)" by (cases "m s")
  from keeps_flagsD [OF assms(1), of s] ms
  have s1: "context_set s1 = context_set s \<and> page_set s1 = page_set s" by simp
  show "context_set (snd (catch m f s)) = context_set s
        \<and> page_set (snd (catch m f s)) = page_set s"
  proof (cases r)
    case (Inr x)
    with ms s1 show ?thesis by (simp add: catch_def)
  next
    case (Inl e)
    with ms s1 keeps_flagsD [OF assms(2), of e s1] show ?thesis by (simp add: catch_def)
  qed
qed

lemma keeps_flags_or_default: "keeps_flags m \<Longrightarrow> keeps_flags (or_default m d)"
  unfolding or_default_def by (rule keeps_flags_catch) (simp_all add: keeps_flags_return)

lemma keeps_flags_all2:
  assumes "keeps_flags m1" and "keeps_flags m2"
  shows "keeps_flags (all2 m1 m2)"
proof (rule keeps_flagsI)
  fix s
  obtain r1 s1 where m1: "m1 s = (r1, s1)" by (cases "m1 s")
  obtain r2 s2 where m2: "m2 s1 = (r2, s2)" by (cases "m2 s1")
  from keeps_flagsD [OF assms(1), of s] m1 keeps_flagsD [OF assms(2), of s1] m2
  show "context_set (snd (all2 m1 m2 s)) = context_set s
        \<and> page_set (snd (all2 m1 m2 s)) = page_set s"
    by (simp add: all2_def)
qed

lemma keeps_flags_snapshot: "keeps_flags (snapshot w opts label)"
  unfolding snapshot_def captureDebugArtifacts_def in_snapshot_def Let_def
  by (intro keeps_flags_catch keeps_flags_bind keeps_flags_all2 keeps_flags_await
        keeps_flags_sync keeps_flags_return keeps_flags_throw)

lemma keeps_flags_scan: "keeps_flags (scanCaptchaIframes w idx k)"
proof (induction k arbitrary: idx)
  case 0
  show ?case by (simp add: keeps_flags_return)
next
  case (Suc k)
  show ?case
    unfolding scanCaptchaIframes.simps
    by (intro keeps_flags_bind keeps_flags_or_default keeps_flags_await)
       (simp add: Suc keeps_flags_return split: option.split)
qed

lemma keeps_flags_visible: "keeps_flags (or_default (isVisible w l) d)"
  unfolding isVisible_def by (intro keeps_flags_or_default keeps_flags_await)

lemma keeps_flags_snapshot_throw:
  "keeps_flags (bind (snapshot w opts label) (\<lambda>dir. throw (f dir)))"
  by (intro keeps_flags_bind keeps_flags_snapshot keeps_flags_throw)

lemma keeps_flags_challenge_wait:
  "keeps_flags
     (bind (snapshot w opts label) (\<lambda>dir.
        catch (await (ask_unit w) (PageWaitFor p t)) (\<lambda>_. throw (f dir))))"
  by (intro keeps_flags_bind keeps_flags_catch keeps_flags_snapshot keeps_flags_await
        keeps_flags_throw)

lemma keeps_flags_captchaChallengeVisible: "keeps_flags (captchaChallengeVisible w)"
  unfolding captchaChallengeVisible_def
  by (intro keeps_flags_bind keeps_flags_or_default keeps_flags_await keeps_flags_scan)

lemma keeps_flags_hasOtp: "keeps_flags (hasOtp w)"
  unfolding hasOtp_def
  by (rule keeps_flags_bind, rule keeps_flags_visible)
     (simp add: keeps_flags_return keeps_flags_visible)

lemma keeps_flags_blockSignals: "keeps_flags (blockSignals w)"
  unfolding blockSignals_def
  by (intro keeps_flags_bind keeps_flags_or_default keeps_flags_await keeps_flags_sync
        keeps_flags_visible keeps_flags_return)

lemma keeps_flags_maybeHandleCaptcha: "keeps_flags (maybeHandleCaptcha w opts label)"
  unfolding maybeHandleCaptcha_def
  by (rule keeps_flags_bind, rule keeps_flags_captchaChallengeVisible)
     (simp add: keeps_flags_return keeps_flags_challenge_wait)

lemma keeps_flags_maybeHandleTwoFactor: "keeps_flags (maybeHandleTwoFactor w opts label)"
  unfolding maybeHandleTwoFactor_def
  by (rule keeps_flags_bind, rule keeps_flags_hasOtp)
     (simp add: keeps_flags_return keeps_flags_challenge_wait)

lemma keeps_flags_maybeThrowIfBlocked: "keeps_flags (maybeThrowIfBlocked w opts label)"
  unfolding maybeThrowIfBlocked_def
  by (rule keeps_flags_bind, rule keeps_flags_blockSignals)
     (simp add: keeps_flags_return keeps_flags_snapshot_throw split: prod.split)

lemma keeps_flags_handleChallengesOrBlocks:
  "keeps_flags (handleChallengesOrBlocks w opts label)"
  unfolding handleChallengesOrBlocks_def
  by (intro keeps_flags_bind keeps_flags_maybeHandleCaptcha keeps_flags_maybeHandleTwoFactor
        keeps_flags_maybeThrowIfBlocked)

lemma keeps_flags_dismissEach: "keeps_flags (dismissEach w ls)"
proof (induction ls)
  case Nil
  show ?case by (simp add: keeps_flags_return)
next
  case (Cons l ls)
  show ?case
    unfolding dismissEach.simps
    by (intro keeps_flags_bind keeps_flags_visible)
       (simp_all add: Cons keeps_flags_return keeps_flags_or_default keeps_flags_await)
qed

lemma keeps_flags_goto: "keeps_flags (goto w opts url)"
  unfolding goto_def maybeDismissOverlays_def
  by (intro keeps_flags_bind keeps_flags_page keeps_flags_await keeps_flags_dismissEach
        keeps_flags_handleChallengesOrBlocks)

lemma goto_success_page_set:
  assumes "goto w opts url s = (Inr (), s')"
  shows "page_set s'"
proof -
  have "page_set s"
  proof (rule ccontr)
    assume "\<not> page_set s"
    then have "fst (goto w opts url s) = Inl NotStarted"
      by (simp add: goto_def bind_def page_def throw_def)
    with assms show False by simp
  qed
  with keeps_flagsD [OF keeps_flags_goto, of w opts url s] assms show ?thesis by simp
qed

section \<open>The status handler\<close>

lemma never_fails_result:
  assumes "fails_only (\<lambda>_. False) m"
  shows "\<exists>x s'. m s = (Inr x, s')"
proof (cases "fst (m s)")
  case (Inl e)
  with fails_onlyD [OF assms, of s e] show ?thesis by simp
next
  case (Inr x)
  then have "m s = (Inr x, snd (m s))" by (simp add: prod_eq_iff)
  then show ?thesis by blast
qed

lemma status_title:
  "or_default (bind (await (ask_string w) PageTitle) (\<lambda>t. return (Some t))) None s
     = (Inr (case ask_string w (calls s @ [PageTitle]) of
               Rejects \<Rightarrow> None | Resolves t \<Rightarrow> Some t),
        log_call PageTitle s)"
  by (simp add: or_default_def catch_def bind_def await_def return_def log_call_def Let_def
        split: outcome.splits)

lemma visible_or_false:
  "or_default (isVisible w l) False s
     = (Inr (ask_bool w (calls s @ [LocatorFirstIsVisible l]) = Resolves True),
        log_call (LocatorFirstIsVisible l) s)"
  by (auto simp: isVisible_def or_default_def catch_def await_def return_def log_call_def
        Let_def split: outcome.splits)

lemma captcha_false_when_count_rejects:
  assumes "ask_nat w (calls s @ [LocatorCount captchaIframes]) = Rejects"
  shows "fst (captchaChallengeVisible w s) = Inr False"
  using assms
  by (simp add: captchaChallengeVisible_def bind_def or_default_def catch_def await_def
        return_def log_call_def Let_def)

lemma captcha_false_when_boxes_reject:
  assumes "\<forall>h. ask_box w h = Rejects"
  shows "fst (captchaChallengeVisible w s) = Inr False"
proof -
  have "fails_only (\<lambda>_. False) (or_default (await (ask_nat w) (LocatorCount captchaIframes)) 0)"
    by (rule fails_only_or_default)
  from never_fails_result [OF this, of s] obtain n s1
    where c: "or_default (await (ask_nat w) (LocatorCount captchaIframes)) 0 s = (Inr n, s1)"
    by blast
  from assms
  have static: "\<forall>h j. ask_box w (h @ [LocatorNthBoundingBox captchaIframes j]) = Rejects"
    by simp
  have "fst (captchaChallengeVisible w s) = fst (scanCaptchaIframes w 0 n s1)"
    by (simp add: captchaChallengeVisible_def bind_def c)
  also have "\<dots> = Inr False"
    using scan_static [of w "\<lambda>_. Rejects" 0 n s1, OF static] by simp
  finally show ?thesis .
qed

lemma status_started:
  assumes "page_set s"
  shows "fst (status w s)
           = Inr (StatusStarted (sync_string w (calls s @ [PageUrl]))
                    (URL_host w (sync_string w (calls s @ [PageUrl])))
                    (case ask_string w (calls s @ [PageUrl, PageTitle]) of
                       Rejects \<Rightarrow> None | Resolves t \<Rightarrow> Some t)
                    \<lparr>captchaVisible
                       = (fst (captchaChallengeVisible w
                                 (log_call PageTitle (log_call PageUrl s))) = Inr True),
                     twoFactorVisible
                       = (ask_bool w
                            (calls (snd (captchaChallengeVisible w
                                           (log_call PageTitle (log_call PageUrl s))))
                             @ [LocatorFirstIsVisible statusTwoFactor]) = Resolves True),
                     loginVisible
                       = (ask_bool w
                            (calls (snd (captchaChallengeVisible w
                                           (log_call PageTitle (log_call PageUrl s))))
                             @ [LocatorFirstIsVisible statusTwoFactor,
                                LocatorFirstIsVisible statusLogin]) = Resolves True),
                     marketingSite
                       = (URL_host w (sync_string w (calls s @ [PageUrl]))
                            = Some ''business.yelp.com'')\<rparr>)"
proof -
  let ?s2 = "log_call PageTitle (log_call PageUrl s)"
  from never_fails_result [OF fails_never_captchaChallengeVisible, of w ?s2]
  obtain captcha s3 where c: "captchaChallengeVisible w ?s2 = (Inr captcha, s3)"
    by blast
  have url: "sync (sync_string w) PageUrl s
               = (Inr (sync_string w (calls s @ [PageUrl])), log_call PageUrl s)"
    by (simp add: sync_def log_call_def Let_def)
  have title: "or_default (bind (await (ask_string w) PageTitle) (\<lambda>t. return (Some t))) None
                 (log_call PageUrl s)
               = (Inr (case ask_string w (calls s @ [PageUrl, PageTitle]) of
                         Rejects \<Rightarrow> None | Resolves t \<Rightarrow> Some t), ?s2)"
    by (simp add: status_title log_call_def)
  have two: "or_default (isVisible w statusTwoFactor) False s3
               = (Inr (ask_bool w (calls s3 @ [LocatorFirstIsVisible statusTwoFactor])
                         = Resolves True),
                  log_call (LocatorFirstIsVisible statusTwoFactor) s3)"
    by (rule visible_or_false)
  have login: "or_default (isVisible w statusLogin) False
                 (log_call (LocatorFirstIsVisible statusTwoFactor) s3)
               = (Inr (ask_bool w (calls s3 @ [LocatorFirstIsVisible statusTwoFactor,
                                                LocatorFirstIsVisible statusLogin])
                         = Resolves True),
                  log_call (LocatorFirstIsVisible statusLogin)
                    (log_call (LocatorFirstIsVisible statusTwoFactor) s3))"
    by (simp add: visible_or_false log_call_def)
  have pg: "page s = (Inr (), s)" using assms by (simp add: page_def return_def)
  show ?thesis
    unfolding status_def status_try_def
    by (simp add: catch_def bind_def [of page] pg
          bind_def [of "sync (sync_string w) PageUrl"] url
          bind_def [of "or_default (bind (await (ask_string w) PageTitle)
                                      (\<lambda>t. return (Some t))) None"] title
          bind_def [of "captchaChallengeVisible w"] c
          bind_def [of "or_default (isVisible w statusTwoFactor) False"] two
          bind_def [of "or_default (isVisible w statusLogin) False"] login
          return_def Let_def)
qed

text \<open>
  Claim C4, as amended. The status operation never throws. It returns
  \<^verbatim>\<open>{started: false}\<close>, without touching the browser, exactly when the session has no page.
  When the session has a page it returns \<^verbatim>\<open>{started: true, ...}\<close> whatever queries fail:
  the URL is the page's URL, the host is the parsed host or \<^verbatim>\<open>null\<close>, the title is the
  page's title or \<^verbatim>\<open>null\<close> when the title query rejects, the CAPTCHA flag is the value of
  the detector, which is false when the count query rejects or when the bounding-box
  queries reject, the two-factor and login flags are true exactly when their visibility
  queries resolve to true (so false when they reject), and the marketing flag says
  whether the host is \<^verbatim>\<open>business.yelp.com\<close>.
\<close>

theorem status_never_throws:
  "(\<exists>reply. fst (status w s) = Inr reply)
   \<and> (\<not> page_set s \<longrightarrow> status w s = (Inr StatusNotStarted, s))
   \<and> (page_set s \<longrightarrow>
        fst (status w s)
          = Inr (StatusStarted (sync_string w (calls s @ [PageUrl]))
                   (URL_host w (sync_string w (calls s @ [PageUrl])))
                   (case ask_string w (calls s @ [PageUrl, PageTitle]) of
                      Rejects \<Rightarrow> None | Resolves t \<Rightarrow> Some t)
                   \<lparr>captchaVisible
                      = (fst (captchaChallengeVisible w
                                (log_call PageTitle (log_call PageUrl s))) = Inr True),
                    twoFactorVisible
                      = (ask_bool w
                           (calls (snd (captchaChallengeVisible w
                                          (log_call PageTitle (log_call PageUrl s))))
                            @ [LocatorFirstIsVisible statusTwoFactor]) = Resolves True),
                    loginVisible
                      = (ask_bool w
                           (calls (snd (captchaChallengeVisible w
                                          (log_call PageTitle (log_call PageUrl s))))
                            @ [LocatorFirstIsVisible statusTwoFactor,
                               LocatorFirstIsVisible statusLogin]) = Resolves True),
                    marketingSite
                      = (URL_host w (sync_string w (calls s @ [PageUrl]))
                           = Some ''business.yelp.com'')\<rparr>))
   \<and> (ask_nat w (calls s @ [PageUrl, PageTitle, LocatorCount captchaIframes]) = Rejects \<longrightarrow>
        fst (captchaChallengeVisible w (log_call PageTitle (log_call PageUrl s))) = Inr False)
   \<and> ((\<forall>h. ask_box w h = Rejects) \<longrightarrow>
        fst (captchaChallengeVisible w (log_call PageTitle (log_call PageUrl s))) = Inr False)"
proof -
  have unstarted: "status w s = (Inr StatusNotStarted, s)" if "\<not> page_set s"
    using that
    by (simp add: status_def status_try_def catch_def bind_def page_def throw_def return_def)
  have total: "\<exists>reply. fst (status w s) = Inr reply"
  proof (cases "page_set s")
    case True
    from status_started [OF this, of w] show ?thesis by blast
  next
    case False
    with unstarted show ?thesis by simp
  qed
  have count: "fst (captchaChallengeVisible w (log_call PageTitle (log_call PageUrl s)))
                 = Inr False"
    if "ask_nat w (calls s @ [PageUrl, PageTitle, LocatorCount captchaIframes]) = Rejects"
    using that by (intro captcha_false_when_count_rejects) (simp add: log_call_def)
  from total unstarted status_started [of s w] count
    captcha_false_when_boxes_reject [of w "log_call PageTitle (log_call PageUrl s)"]
  show ?thesis by blast
qed

lemmas handler_defs =
  status_def status_try_def navigate_def navigate_task_def navigate_capture_def
  body_valid_def url_allowed_def allowedPrefixes_def statusTwoFactor_def statusLogin_def

theorem status_never_throws_witness:
  "status calm_world new_client = (Inr StatusNotStarted, new_client)
   \<and> fst (status marketing_page_world started_client)
       = Inr (StatusStarted ''https://business.yelp.com/'' (Some ''business.yelp.com'')
                (Some ''Yelp for Business'')
                \<lparr>captchaVisible = False, twoFactorVisible = False, loginVisible = False,
                 marketingSite = True\<rparr>)
   \<and> fst (captchaChallengeVisible broken_queries_world
              (log_call PageTitle (log_call PageUrl started_client))) = Inr False"
proof -
  have a: "\<not> page_set new_client" by (simp add: new_client_def)
  have b: "page_set started_client" by (simp add: started_client_def)
  have c: "ask_nat broken_queries_world
             (calls started_client @ [PageUrl, PageTitle, LocatorCount captchaIframes])
           = Rejects"
    by (simp add: broken_queries_world_def)
  have d: "fst (captchaChallengeVisible marketing_page_world
                  (log_call PageTitle (log_call PageUrl started_client))) = Inr False"
    by (simp add: captchaChallengeVisible_def io_defs marketing_page_world_def calm_world_def
          Let_def)
  from status_never_throws [of broken_queries_world started_client] c
  have captcha: "fst (captchaChallengeVisible broken_queries_world
                        (log_call PageTitle (log_call PageUrl started_client))) = Inr False"
    by blast
  from status_never_throws [of marketing_page_world started_client] b d
  have "fst (status marketing_page_world started_client)
       = Inr (StatusStarted ''https://business.yelp.com/'' (Some ''business.yelp.com'')
                (Some ''Yelp for Business'')
                \<lparr>captchaVisible = False, twoFactorVisible = False, loginVisible = False,
                 marketingSite = True\<rparr>)"
    by (simp add: marketing_page_world_def example_defs)
  with status_never_throws [of calm_world new_client] a captcha show ?thesis by blast
qed

text \<open>
  The claim as stated fails: in a started session in which the title query, the iframe
  count and every visibility query reject, the reply is not \<^verbatim>\<open>{started: false}\<close> but
  \<^verbatim>\<open>{started: true, ...}\<close> with a \<^verbatim>\<open>null\<close> title and all flags false.
\<close>

theorem status_started_despite_failed_queries:
  "fst (status broken_queries_world started_client)
     = Inr (StatusStarted ''https://biz.yelp.com/'' (Some ''biz.yelp.com'') None
              \<lparr>captchaVisible = False, twoFactorVisible = False, loginVisible = False,
               marketingSite = False\<rparr>)"
  by (simp add: handler_defs page_def captchaChallengeVisible_def io_defs
        broken_queries_world_def example_defs Let_def)

section \<open>The navigate handler\<close>

lemma navigate_capture_label:
  assumes "1 \<le> length l"
  shows "navigate_capture w opts (Some l) s
           = (case snapshot w opts l s of
                (Inl e, s') \<Rightarrow> (Inl e, s')
              | (Inr dir, s') \<Rightarrow> (Inr (Some dir), s'))"
proof -
  from assms have "l \<noteq> []" by auto
  then show ?thesis
    by (simp add: navigate_capture_def bind_def return_def split: prod.splits sum.splits)
qed

lemma navigate_read:
  "bind (sync (sync_string w) PageUrl) (\<lambda>url.
     bind (await (ask_string w) PageTitle) (\<lambda>title.
       return (Navigated url title artifacts))) s
   = ((case ask_string w (calls s @ [PageUrl, PageTitle]) of
         Rejects \<Rightarrow> Inl (CallRejected PageTitle)
       | Resolves title \<Rightarrow>
           Inr (Navigated (sync_string w (calls s @ [PageUrl])) title artifacts)),
      log_call PageTitle (log_call PageUrl s))"
  by (simp add: bind_def sync_def await_def return_def log_call_def Let_def
        split: outcome.splits)

lemma bind_return: "bind (return x) f s = f x s"
  by (simp add: bind_def return_def)

lemma navigate_valid: "body_valid w b \<Longrightarrow> navigate w opts b s = navigate_task w opts b s"
  by (simp add: navigate_def)

lemma navigate_start_fails:
  assumes "body_valid w b" and "fst (start w opts s) = Inl e"
  shows "fst (navigate w opts b s) = Inl e"
  using assms(2) unfolding navigate_valid [OF assms(1)]
  by (cases "start w opts s") (simp add: navigate_task_def bind_def)

lemma navigate_goto_fails:
  assumes "body_valid w b" and "start w opts s = (Inr (), s1)"
    and "fst (goto w opts (body_url b) s1) = Inl e"
  shows "fst (navigate w opts b s) = Inl e"
  using assms(2,3) unfolding navigate_valid [OF assms(1)]
  by (cases "goto w opts (body_url b) s1") (simp add: navigate_task_def bind_def)

lemma navigate_task_after_goto:
  assumes "start w opts s = (Inr (), s1)" and "goto w opts (body_url b) s1 = (Inr (), s2)"
  shows "navigate_task w opts b s
           = bind (navigate_capture w opts (body_captureLabel b)) (\<lambda>artifacts.
               bind (sync (sync_string w) PageUrl) (\<lambda>url.
               bind (await (ask_string w) PageTitle) (\<lambda>title.
                 return (Navigated url title artifacts)))) s2"
proof -
  from goto_success_page_set [OF assms(2)] have pg: "page s2 = (Inr (), s2)"
    by (simp add: page_def return_def)
  show ?thesis
    unfolding navigate_task_def
    using assms pg
    by (simp add: bind_def [of "start w opts"] bind_def [of "goto w opts (body_url b)"]
          bind_def [of page])
qed

lemma navigate_without_label:
  assumes "body_valid w b" and "start w opts s = (Inr (), s1)"
    and "goto w opts (body_url b) s1 = (Inr (), s2)" and "body_captureLabel b = None"
  shows "navigate w opts b s
           = ((case ask_string w (calls s2 @ [PageUrl, PageTitle]) of
                 Rejects \<Rightarrow> Inl (CallRejected PageTitle)
               | Resolves title \<Rightarrow>
                   Inr (Navigated (sync_string w (calls s2 @ [PageUrl])) title None)),
              log_call PageTitle (log_call PageUrl s2))"
  unfolding navigate_valid [OF assms(1)] navigate_task_after_goto [OF assms(2,3)]
  using assms(4) navigate_read [of w None s2]
  by (simp add: navigate_capture_def bind_return)

lemma navigate_snapshot_fails:
  assumes "body_valid w b" and "start w opts s = (Inr (), s1)"
    and "goto w opts (body_url b) s1 = (Inr (), s2)" and "body_captureLabel b = Some l"
    and "fst (snapshot w opts l s2) = Inl e"
  shows "fst (navigate w opts b s) = Inl e"
proof -
  from assms(1,4) have len: "1 \<le> length l" by (simp add: body_valid_def)
  from assms(5) have "fst (navigate_capture w opts (Some l) s2) = Inl e"
    by (cases "snapshot w opts l s2") (simp add: navigate_capture_label [OF len])
  then show ?thesis
    unfolding navigate_valid [OF assms(1)] navigate_task_after_goto [OF assms(2,3)]
    using assms(4)
    by (cases "navigate_capture w opts (Some l) s2")
       (simp add: bind_def [of "navigate_capture w opts (Some l)"])
qed

lemma navigate_with_label:
  assumes "body_valid w b" and "start w opts s = (Inr (), s1)"
    and "goto w opts (body_url b) s1 = (Inr (), s2)" and "body_captureLabel b = Some l"
    and "snapshot w opts l s2 = (Inr dir, s3)"
  shows "navigate w opts b s
           = ((case ask_string w (calls s3 @ [PageUrl, PageTitle]) of
                 Rejects \<Rightarrow> Inl (CallRejected PageTitle)
               | Resolves title \<Rightarrow>
                   Inr (Navigated (sync_string w (calls s3 @ [PageUrl])) title (Some dir))),
              log_call PageTitle (log_call PageUrl s3))"
proof -
  from assms(1,4) have len: "1 \<le> length l" by (simp add: body_valid_def)
  from assms(5) have cap: "navigate_capture w opts (Some l) s2 = (Inr (Some dir), s3)"
    by (simp add: navigate_capture_label [OF len])
  show ?thesis
    unfolding navigate_valid [OF assms(1)] navigate_task_after_goto [OF assms(2,3)]
    using assms(4) cap navigate_read [of w "Some dir" s3]
    by (simp add: bind_def [of "navigate_capture w opts (Some l)"])
qed

text \<open>
  Claim C5, as amended. A request whose URL does not start with one of the three
  allow-list prefixes is answered with the 400 reply before any browser interaction: no
  call is made and the session is left as it was. The same holds for a request whose
  capture label is the empty string and for one whose URL fails the URL check, whatever
  the prefix of its URL. A request that passes validation (the URL passes the URL check
  and carries an allowed prefix; the capture label is absent or non-empty) starts the
  session if needed, runs \<^verbatim>\<open>goto\<close>, captures a labelled snapshot exactly when a label is
  given, and, when none of these steps nor the final title query fails, returns the
  page's URL and title with the snapshot directory (or \<^verbatim>\<open>null\<close>); the failure of a step is
  the failure of the request.
\<close>

theorem navigate_allow_list:
  "(\<not> url_allowed (body_url b) \<longrightarrow> navigate w opts b s = (Inr BadRequest, s))
   \<and> (body_captureLabel b = Some [] \<longrightarrow> navigate w opts b s = (Inr BadRequest, s))
   \<and> (\<not> zod_url w (body_url b) \<longrightarrow> navigate w opts b s = (Inr BadRequest, s))
   \<and> (body_valid w b \<and> fst (start w opts s) = Inl e
        \<longrightarrow> fst (navigate w opts b s) = Inl e)
   \<and> (body_valid w b \<and> start w opts s = (Inr (), s1)
        \<and> fst (goto w opts (body_url b) s1) = Inl e
        \<longrightarrow> fst (navigate w opts b s) = Inl e)
   \<and> (body_valid w b \<and> start w opts s = (Inr (), s1)
        \<and> goto w opts (body_url b) s1 = (Inr (), s2) \<and> body_captureLabel b = None
        \<longrightarrow> navigate w opts b s
              = ((case ask_string w (calls s2 @ [PageUrl, PageTitle]) of
                    Rejects \<Rightarrow> Inl (CallRejected PageTitle)
                  | Resolves title \<Rightarrow>
                      Inr (Navigated (sync_string w (calls s2 @ [PageUrl])) title None)),
                 log_call PageTitle (log_call PageUrl s2)))
   \<and> (body_valid w b \<and> start w opts s = (Inr (), s1)
        \<and> goto w opts (body_url b) s1 = (Inr (), s2) \<and> body_captureLabel b = Some l
        \<and> fst (snapshot w opts l s2) = Inl e
        \<longrightarrow> fst (navigate w opts b s) = Inl e)
   \<and> (body_valid w b \<and> start w opts s = (Inr (), s1)
        \<and> goto w opts (body_url b) s1 = (Inr (), s2) \<and> body_captureLabel b = Some l
        \<and> snapshot w opts l s2 = (Inr dir, s3)
        \<longrightarrow> navigate w opts b s
              = ((case ask_string w (calls s3 @ [PageUrl, PageTitle]) of
                    Rejects \<Rightarrow> Inl (CallRejected PageTitle)
                  | Resolves title \<Rightarrow>
                      Inr (Navigated (sync_string w (calls s3 @ [PageUrl])) title
                             (Some dir))),
                 log_call PageTitle (log_call PageUrl s3)))"
proof -
  have "\<not> url_allowed (body_url b) \<longrightarrow> navigate w opts b s = (Inr BadRequest, s)"
    by (simp add: navigate_def body_valid_def return_def)
  moreover
  have "body_captureLabel b = Some [] \<longrightarrow> navigate w opts b s = (Inr BadRequest, s)"
    by (simp add: navigate_def body_valid_def return_def)
  moreover
  have "\<not> zod_url w (body_url b) \<longrightarrow> navigate w opts b s = (Inr BadRequest, s)"
    by (simp add: navigate_def body_valid_def return_def)
  moreover note navigate_start_fails [of w b opts s e] navigate_goto_fails [of w b opts s s1 e]
    navigate_without_label [of w b opts s s1 s2]
    navigate_snapshot_fails [of w b opts s s1 s2 l e]
    navigate_with_label [of w b opts s s1 s2 l dir s3]
  ultimately show ?thesis by blast
qed

lemma evil_not_allowed: "\<not> url_allowed ''https://evil.example/''"
  by (simp add: url_allowed_def allowedPrefixes_def)

lemma inbox_body_valid:
  "body_valid calm_world
     \<lparr>body_url = ''https://biz.yelp.com/inbox'', body_captureLabel = Some ''inbox''\<rparr>"
  by (simp add: body_valid_def url_allowed_def allowedPrefixes_def calm_world_def)

lemma calm_start: "fst (start calm_world example_opts new_client) = Inr ()"
  by (simp add: client_defs io_defs example_defs Let_def)

lemma calm_goto_inbox:
  "fst (goto calm_world example_opts ''https://biz.yelp.com/inbox''
          (snd (start calm_world example_opts new_client))) = Inr ()"
  by (simp add: client_defs io_defs challenge_defs locator_defs example_defs Let_def)

lemma calm_snapshot_inbox:
  "fst (snapshot calm_world example_opts ''inbox''
          (snd (goto calm_world example_opts ''https://biz.yelp.com/inbox''
                  (snd (start calm_world example_opts new_client)))))
     = Inr ''artifacts/yelp-biz/2025-01-01T00-00-00-000Z-inbox''"
  by (simp add: client_defs io_defs challenge_defs snapshot_defs locator_defs example_defs
        Let_def)

theorem navigate_allow_list_witness:
  "navigate calm_world example_opts
     \<lparr>body_url = ''https://evil.example/'', body_captureLabel = Some ''x''\<rparr> new_client
     = (Inr BadRequest, new_client)
   \<and> navigate calm_world example_opts
       \<lparr>body_url = ''https://www.yelp.com/'', body_captureLabel = Some []\<rparr> new_client
     = (Inr BadRequest, new_client)
   \<and> (\<exists>url. fst (navigate calm_world example_opts
                \<lparr>body_url = ''https://biz.yelp.com/inbox'', body_captureLabel = Some ''inbox''\<rparr>
                new_client)
          = Inr (Navigated url ''Yelp for Business''
                   (Some ''artifacts/yelp-biz/2025-01-01T00-00-00-000Z-inbox'')))"
proof -
  let ?b = "\<lparr>body_url = ''https://biz.yelp.com/inbox'', body_captureLabel = Some ''inbox''\<rparr>"
  let ?s1 = "snd (start calm_world example_opts new_client)"
  let ?s2 = "snd (goto calm_world example_opts ''https://biz.yelp.com/inbox'' ?s1)"
  let ?s3 = "snd (snapshot calm_world example_opts ''inbox'' ?s2)"
  let ?dir = "''artifacts/yelp-biz/2025-01-01T00-00-00-000Z-inbox''"
  have h1: "start calm_world example_opts new_client = (Inr (), ?s1)"
    using calm_start by (simp add: prod_eq_iff)
  have h2: "goto calm_world example_opts (body_url ?b) ?s1 = (Inr (), ?s2)"
    using calm_goto_inbox by (simp add: prod_eq_iff)
  have h3: "snapshot calm_world example_opts ''inbox'' ?s2 = (Inr ?dir, ?s3)"
    using calm_snapshot_inbox by (simp add: prod_eq_iff)
  have title: "ask_string calm_world (calls ?s3 @ [PageUrl, PageTitle])
                 = Resolves ''Yelp for Business''"
    by (simp add: calm_world_def)
  from navigate_allow_list
         [of "\<lparr>body_url = ''https://evil.example/'', body_captureLabel = Some ''x''\<rparr>"
             calm_world example_opts new_client]
       evil_not_allowed
  have first: "navigate calm_world example_opts
     \<lparr>body_url = ''https://evil.example/'', body_captureLabel = Some ''x''\<rparr> new_client
     = (Inr BadRequest, new_client)"
    by simp
  from navigate_allow_list
         [of "\<lparr>body_url = ''https://www.yelp.com/'', body_captureLabel = Some []\<rparr>"
             calm_world example_opts new_client]
  have second: "navigate calm_world example_opts
     \<lparr>body_url = ''https://www.yelp.com/'', body_captureLabel = Some []\<rparr> new_client
     = (Inr BadRequest, new_client)"
    by simp
  from navigate_allow_list [of ?b calm_world example_opts new_client _ ?s1 ?s2 "''inbox''" ?dir ?s3]
       inbox_body_valid h1 h2 h3
  have "navigate calm_world example_opts ?b new_client
          = ((case ask_string calm_world (calls ?s3 @ [PageUrl, PageTitle]) of
                Rejects \<Rightarrow> Inl (CallRejected PageTitle)
              | Resolves title \<Rightarrow>
                  Inr (Navigated (sync_string calm_world (calls ?s3 @ [PageUrl])) title
                         (Some ?dir))),
             log_call PageTitle (log_call PageUrl ?s3))"
    by simp
  with title have "fst (navigate calm_world example_opts ?b new_client)
          = Inr (Navigated (sync_string calm_world (calls ?s3 @ [PageUrl]))
                   ''Yelp for Business'' (Some ?dir))"
    by simp
  with first second show ?thesis by blast
qed

text \<open>
  The claim as stated fails for allowed URLs. A request for \<^verbatim>\<open>https://biz.yelp.com/\<close>
  with an empty capture label is answered with the 400 reply and nothing is done; and a
  request for the same URL, when the page shown is the CDN's block page, starts the
  session and runs \<^verbatim>\<open>goto\<close>, which throws the block error, so that no \<^verbatim>\<open>{url, title,
  artifactsDir}\<close> is returned.
\<close>

lemma block_page_title: "cloudfrontBlockTitle ''ERROR: The request could not be satisfied''"
  by code_simp

theorem navigate_allowed_url_without_result:
  "url_allowed ''https://biz.yelp.com/''
   \<and> navigate calm_world example_opts
       \<lparr>body_url = ''https://biz.yelp.com/'', body_captureLabel = Some []\<rparr> new_client
     = (Inr BadRequest, new_client)
   \<and> fst (navigate blocked_world example_opts
            \<lparr>body_url = ''https://biz.yelp.com/'', body_captureLabel = None\<rparr> new_client)
     = Inl (BlockedUnavailable ''https://biz.yelp.com/''
              ''ERROR: The request could not be satisfied''
              ''artifacts/yelp-biz/2025-01-01T00-00-00-000Z-blocked-navigation'')"
  by (simp add: handler_defs client_defs io_defs challenge_defs snapshot_defs locator_defs
        blocked_world_def example_defs Let_def block_page_title
        del: cloudfrontBlockTitle_def)

section \<open>The serial queue: its reachable states\<close>

lemma enqueue_canon:
  assumes "canon_ok throws n k ph"
  shows "enqueue (canon throws n k ph outs) = canon throws (Suc n) k ph outs"
proof (cases "k = Suc n")
  case True
  with assms have ph: "ph = Scheduled" by (simp add: canon_ok_def)
  show ?thesis
    by (simp add: enqueue_def then_react_def new_promise_def canon_def Let_def
          canon_promises_def canon_jobs_def canon_trace_def True ph fun_eq_iff
          split: pid.splits)
next
  case False
  with assms have kn: "k \<le> n" by (simp add: canon_ok_def)
  show ?thesis
    using kn
    by (cases ph)
       (auto simp: enqueue_def then_react_def new_promise_def canon_def Let_def
          canon_promises_def canon_jobs_def canon_trace_def fun_eq_iff
          split: pid.splits)
qed

lemmas canon_defs =
  canon_def canon_promises_def canon_jobs_def canon_trace_def outcome_of_def

lemmas job_defs = settle_def then_react_def new_promise_def Let_def

lemma finished_before_Suc:
  "i \<le> k \<Longrightarrow> finished_before throws outs i (Suc k)
     = finished_before throws outs i k @ [Started k, Finished k (outcome_of throws outs k)]"
  by (simp add: finished_before_def)

lemma finished_before_update:
  "finished_before throws (outs(k := v)) i k = finished_before throws outs i k"
  unfolding finished_before_def
  by (rule arg_cong [where f = concat], rule map_cong)
     (auto simp: outcome_of_def split: option.splits)

lemma tick_idle: "step throws (canon throws n (Suc n) Scheduled outs) Tick
                    = canon throws n (Suc n) Scheduled outs"
  by (simp add: canon_def canon_jobs_def)

lemma tick_scheduled_returns:
  assumes "1 \<le> k" and "k \<le> n" and "throws k = None"
  shows "step throws (canon throws n k Scheduled outs) Tick = canon throws n k Called outs"
  using assms
  by (auto simp: canon_defs job_defs fun_eq_iff split: pid.splits)

lemma tick_scheduled_throws:
  assumes "1 \<le> k" and "k \<le> n" and "throws k = Some e"
  shows "step throws (canon throws n k Scheduled outs) Tick = canon throws n k Chaining outs"
  using assms
  by (auto simp: canon_defs job_defs fun_eq_iff split: pid.splits)

lemma tick_called:
  assumes "1 \<le> k" and "k \<le> n" and "throws k = None"
  shows "step throws (canon throws n k Called outs) Tick = canon throws n k Awaiting outs"
  using assms
  by (auto simp: canon_defs job_defs fun_eq_iff split: pid.splits)

lemma tick_called_done:
  assumes "1 \<le> k" and "k \<le> n" and "throws k = None"
  shows "step throws (canon throws n k CalledDone outs) Tick = canon throws n k Adopting outs"
  using assms
  by (auto simp: canon_defs job_defs fun_eq_iff split: pid.splits)

lemma tick_awaiting:
  "step throws (canon throws n k Awaiting outs) Tick = canon throws n k Awaiting outs"
  by (simp add: canon_def canon_jobs_def)

lemma tick_adopting:
  assumes "1 \<le> k" and "k \<le> n" and "throws k = None"
  shows "step throws (canon throws n k Adopting outs) Tick = canon throws n k Chaining outs"
  using assms
  by (auto simp: canon_defs job_defs fun_eq_iff split: pid.splits)

lemma tick_chaining:
  assumes "1 \<le> k" and "k \<le> n"
  shows "step throws (canon throws n k Chaining outs) Tick
           = canon throws n (Suc k) Scheduled outs"
  using assms
  by (auto simp: canon_defs job_defs fun_eq_iff finished_before_Suc less_Suc_eq
           split: pid.splits option.splits)

lemma finish_called:
  assumes "1 \<le> k" and "k \<le> n" and "throws k = None"
  shows "step throws (canon throws n k Called outs) (Finish k v)
           = canon throws n k CalledDone (outs(k := v))"
  using assms
  by (auto simp: canon_defs job_defs fun_eq_iff finished_before_update
           split: pid.splits option.splits)

lemma finish_awaiting:
  assumes "1 \<le> k" and "k \<le> n" and "throws k = None"
  shows "step throws (canon throws n k Awaiting outs) (Finish k v)
           = canon throws n k Adopting (outs(k := v))"
  using assms
  by (auto simp: canon_defs job_defs fun_eq_iff finished_before_update
           split: pid.splits option.splits)

lemma finish_other:
  assumes "\<not> (i = k \<and> (ph = Called \<or> ph = Awaiting))"
  shows "step throws (canon throws n k ph outs) (Finish i v) = canon throws n k ph outs"
  using assms
  by (cases ph) (auto simp: canon_def canon_promises_def split: option.splits pstate.splits)

lemma init_canon: "queue_init = canon throws 0 1 Scheduled outs"
  by (auto simp: queue_init_def canon_defs finished_before_def fun_eq_iff split: pid.splits)

lemma step_canon:
  assumes "canon_ok throws n k ph"
  shows "\<exists>n' k' ph' outs'. canon_ok throws n' k' ph'
           \<and> step throws (canon throws n k ph outs) a = canon throws n' k' ph' outs'
           \<and> n' = (if a = Enqueue then Suc n else n)"
proof (cases a)
  case Enqueue
  from assms have "canon_ok throws (Suc n) k ph" by (auto simp: canon_ok_def)
  with enqueue_canon [OF assms, where outs=outs] Enqueue show ?thesis by auto
next
  case (Finish i v)
  show ?thesis
  proof (cases "i = k \<and> (ph = Called \<or> ph = Awaiting)")
    case False
    with finish_other [where i=i and k=k and ph=ph and throws=throws and n=n and outs=outs and v=v] assms Finish show ?thesis by auto
  next
    case True
    with assms have k: "1 \<le> k" "k \<le> n" "throws k = None"
      by (auto simp: canon_ok_def)
    from True show ?thesis
    proof (elim conjE disjE)
      assume "i = k" "ph = Called"
      moreover from k have "canon_ok throws n k CalledDone" by (simp add: canon_ok_def)
      ultimately show ?thesis using finish_called [where k=k and n=n and throws=throws and outs=outs and v=v] k Finish k(2) by auto
    next
      assume "i = k" "ph = Awaiting"
      moreover from k have "canon_ok throws n k Adopting" by (simp add: canon_ok_def)
      ultimately show ?thesis using finish_awaiting [where k=k and n=n and throws=throws and outs=outs and v=v] k Finish k(2) by auto
    qed
  qed
next
  case Tick
  show ?thesis
  proof (cases "k = Suc n")
    case True
    with assms have "ph = Scheduled" by (simp add: canon_ok_def)
    with True tick_idle [where throws=throws and n=n and outs=outs] assms Tick show ?thesis by auto
  next
    case False
    with assms have k: "1 \<le> k" "k \<le> n" by (auto simp: canon_ok_def)
    show ?thesis
    proof (cases ph)
      case Scheduled
      show ?thesis
      proof (cases "throws k")
        case None
        from k None have "canon_ok throws n k Called" by (simp add: canon_ok_def)
        with tick_scheduled_returns [where k=k and n=n and throws=throws and outs=outs] k None Scheduled Tick k(2)
        show ?thesis by auto
      next
        case (Some e)
        from k have "canon_ok throws n k Chaining" by (simp add: canon_ok_def)
        with tick_scheduled_throws [where k=k and n=n and throws=throws and outs=outs and e=e] k Some Scheduled Tick k(2)
        show ?thesis by auto
      qed
    next
      case Called
      with assms have t: "throws k = None" by (simp add: canon_ok_def)
      from k t have "canon_ok throws n k Awaiting" by (simp add: canon_ok_def)
      with tick_called [where k=k and n=n and throws=throws and outs=outs] k t Called Tick k(2) show ?thesis by auto
    next
      case CalledDone
      with assms have t: "throws k = None" by (simp add: canon_ok_def)
      from k t have "canon_ok throws n k Adopting" by (simp add: canon_ok_def)
      with tick_called_done [where k=k and n=n and throws=throws and outs=outs] k t CalledDone Tick k(2) show ?thesis by auto
    next
      case Awaiting
      with tick_awaiting [where throws=throws and n=n and k=k and outs=outs] assms Tick show ?thesis by auto
    next
      case Adopting
      with assms have t: "throws k = None" by (simp add: canon_ok_def)
      from k have "canon_ok throws n k Chaining" by (simp add: canon_ok_def)
      with tick_adopting [where k=k and n=n and throws=throws and outs=outs] k t Adopting Tick k(2) show ?thesis by auto
    next
      case Chaining
      from k have "canon_ok throws n (Suc k) Scheduled" by (simp add: canon_ok_def)
      with tick_chaining [where k=k and n=n and throws=throws and outs=outs] k Chaining Tick k(2) show ?thesis by auto
    qed
  qed
qed

lemma exec_snoc: "exec throws (acts @ [a]) = step throws (exec throws acts) a"
  by (simp add: exec_def)

lemma exec_append:
  "exec throws (acts @ rest) = foldl (step throws) (exec throws acts) rest"
  by (simp add: exec_def)

lemma reachable_canon:
  "\<exists>n k ph outs. canon_ok throws n k ph \<and> exec throws acts = canon throws n k ph outs
                   \<and> n = length (filter (\<lambda>a. a = Enqueue) acts)"
proof (induction acts rule: rev_induct)
  case Nil
  have "canon_ok throws 0 1 Scheduled" by (simp add: canon_ok_def)
  moreover have "exec throws [] = canon throws 0 1 Scheduled (\<lambda>_. Fulfilled None)"
    by (simp add: exec_def init_canon [of throws "\<lambda>_. Fulfilled None"])
  ultimately show ?case by auto
next
  case (snoc a acts)
  then obtain n k ph outs where c: "canon_ok throws n k ph"
    "exec throws acts = canon throws n k ph outs"
    "n = length (filter (\<lambda>a. a = Enqueue) acts)" by blast
  from step_canon [OF c(1), where outs=outs and a=a] obtain n' k' ph' outs' where
    s: "canon_ok throws n' k' ph'"
       "step throws (canon throws n k ph outs) a = canon throws n' k' ph' outs'"
       "n' = (if a = Enqueue then Suc n else n)" by blast
  from c(2) s(2) have "exec throws (acts @ [a]) = canon throws n' k' ph' outs'"
    by (simp add: exec_snoc)
  moreover from c(3) s(3) have "n' = length (filter (\<lambda>a. a = Enqueue) (acts @ [a]))"
    by simp
  ultimately show ?case using s(1) by blast
qed

section \<open>The serial queue: order, outcomes and liveness\<close>

lemma serial_from_finished_before:
  "i \<le> k \<Longrightarrow> serial_from i (finished_before throws outs i k @ rest) = serial_from k rest"
proof (induction "k - i" arbitrary: i)
  case 0
  then show ?case by (simp add: finished_before_def)
next
  case (Suc d)
  then have lt: "i < k" and d: "d = k - Suc i" and le: "Suc i \<le> k" by simp_all
  from lt have "finished_before throws outs i k
                  = Started i # Finished i (outcome_of throws outs i)
                      # finished_before throws outs (Suc i) k"
    by (simp add: finished_before_def upt_conv_Cons)
  then show ?case using Suc.hyps(1) [OF d le] by simp
qed

lemma serial_canon_trace:
  assumes "1 \<le> k"
  shows "serial_from 1 (canon_trace throws k ph outs)"
  unfolding canon_trace_def serial_from_finished_before [OF assms]
  by (cases ph) simp_all

lemma set_finished_before:
  "set (finished_before throws outs i k)
     = (\<Union>j \<in> {i..<k}. {Started j, Finished j (outcome_of throws outs j)})"
  by (auto simp: finished_before_def)

lemma started_in_canon_trace:
  "Started i \<in> set (canon_trace throws k ph outs)
     \<longleftrightarrow> (1 \<le> i \<and> i < k) \<or> (i = k \<and> ph \<noteq> Scheduled)"
  by (cases ph) (auto simp: canon_trace_def set_finished_before)

lemma finished_in_canon_trace:
  "Finished i v \<in> set (canon_trace throws k ph outs)
     \<longleftrightarrow> v = outcome_of throws outs i
          \<and> ((1 \<le> i \<and> i < k) \<or> (i = k \<and> (ph = CalledDone \<or> ph = Adopting \<or> ph = Chaining)))"
  by (cases ph) (auto simp: canon_trace_def set_finished_before)

lemma run_settled_canon:
  "canon_promises throws n k ph outs (Run i) = Some (Settled v)
     \<longleftrightarrow> v = outcome_of throws outs i \<and> 1 \<le> i \<and> i \<le> n
          \<and> (i < k \<or> (i = k \<and> ph = Chaining))"
  by (auto simp: canon_promises_def)

lemma drain_scheduled:
  assumes "1 \<le> k" and "k \<le> Suc n"
  shows "\<exists>rest outs'. list_all (is_progress outs) rest
           \<and> foldl (step throws) (canon throws n k Scheduled c) rest
               = canon throws n (Suc n) Scheduled outs'"
  using assms
proof (induction "Suc n - k" arbitrary: k c)
  case 0
  then have "k = Suc n" by simp
  then have "list_all (is_progress outs) []
             \<and> foldl (step throws) (canon throws n k Scheduled c) []
                 = canon throws n (Suc n) Scheduled c"
    by simp
  then show ?case by blast
next
  case (Suc d)
  then have k: "1 \<le> k" "k \<le> n" and d: "d = Suc n - Suc k"
    and k': "1 \<le> Suc k" "Suc k \<le> Suc n" by simp_all
  show ?case
  proof (cases "throws k")
    case None
    let ?c' = "c(k := outs k)"
    from Suc.hyps(1) [OF d k', of ?c'] obtain rest outs' where
      r: "list_all (is_progress outs) rest"
         "foldl (step throws) (canon throws n (Suc k) Scheduled ?c') rest
            = canon throws n (Suc n) Scheduled outs'" by blast
    let ?acts = "[Tick, Tick, Finish k (outs k), Tick, Tick] @ rest"
    have "foldl (step throws) (canon throws n k Scheduled c) ?acts
            = canon throws n (Suc n) Scheduled outs'"
      using r(2)
      by (simp add: tick_scheduled_returns [where k=k and n=n and throws=throws, OF k None]
            tick_called [where k=k and n=n and throws=throws, OF k None]
            finish_awaiting [where k=k and n=n and throws=throws, OF k None]
            tick_adopting [where k=k and n=n and throws=throws, OF k None]
            tick_chaining [where k=k and n=n and throws=throws, OF k]
            del: step.simps)
    moreover from r(1) have "list_all (is_progress outs) ?acts" by simp
    ultimately show ?thesis by blast
  next
    case (Some e)
    from Suc.hyps(1) [OF d k', of c] obtain rest outs' where
      r: "list_all (is_progress outs) rest"
         "foldl (step throws) (canon throws n (Suc k) Scheduled c) rest
            = canon throws n (Suc n) Scheduled outs'" by blast
    let ?acts = "[Tick, Tick] @ rest"
    have "foldl (step throws) (canon throws n k Scheduled c) ?acts
            = canon throws n (Suc n) Scheduled outs'"
      using r(2)
      by (simp add: tick_scheduled_throws [where k=k and n=n and throws=throws, OF k Some]
            tick_chaining [where k=k and n=n and throws=throws, OF k]
            del: step.simps)
    moreover from r(1) have "list_all (is_progress outs) ?acts" by simp
    ultimately show ?thesis by blast
  qed
qed

lemma drain_canon:
  assumes "canon_ok throws n k ph"
  shows "\<exists>rest outs'. list_all (is_progress outs) rest
           \<and> foldl (step throws) (canon throws n k ph c) rest
               = canon throws n (Suc n) Scheduled outs'"
proof (cases "ph = Scheduled")
  case True
  with assms drain_scheduled [of k n outs throws c] show ?thesis
    by (simp add: canon_ok_def)
next
  case False
  with assms have k: "1 \<le> k" "k \<le> n" and k': "1 \<le> Suc k" "Suc k \<le> Suc n"
    by (auto simp: canon_ok_def)
  have via: "\<exists>rest outs'. list_all (is_progress outs) rest
           \<and> foldl (step throws) (canon throws n k ph c) rest
               = canon throws n (Suc n) Scheduled outs'"
    if p: "list_all (is_progress outs) pre"
      and f: "foldl (step throws) (canon throws n k ph c) pre
                = canon throws n (Suc k) Scheduled c'" for pre c'
  proof -
    from drain_scheduled [OF k', of outs throws c'] obtain rest outs' where
      r: "list_all (is_progress outs) rest"
         "foldl (step throws) (canon throws n (Suc k) Scheduled c') rest
            = canon throws n (Suc n) Scheduled outs'" by blast
    from p r(1) have "list_all (is_progress outs) (pre @ rest)" by simp
    moreover from f r(2)
    have "foldl (step throws) (canon throws n k ph c) (pre @ rest)
            = canon throws n (Suc n) Scheduled outs'" by simp
    ultimately show ?thesis by blast
  qed
  show ?thesis
  proof (cases ph)
    case Scheduled
    with False show ?thesis by simp
  next
    case Called
    with assms have t: "throws k = None" by (simp add: canon_ok_def)
    show ?thesis
      by (rule via [of "[Tick, Finish k (outs k), Tick, Tick]" "c(k := outs k)"])
         (simp_all add: Called
            tick_called [where k=k and n=n and throws=throws, OF k t]
            finish_awaiting [where k=k and n=n and throws=throws, OF k t]
            tick_adopting [where k=k and n=n and throws=throws, OF k t]
            tick_chaining [where k=k and n=n and throws=throws, OF k]
            del: step.simps)
  next
    case CalledDone
    with assms have t: "throws k = None" by (simp add: canon_ok_def)
    show ?thesis
      by (rule via [of "[Tick, Tick, Tick]" c])
         (simp_all add: CalledDone
            tick_called_done [where k=k and n=n and throws=throws, OF k t]
            tick_adopting [where k=k and n=n and throws=throws, OF k t]
            tick_chaining [where k=k and n=n and throws=throws, OF k]
            del: step.simps)
  next
    case Awaiting
    with assms have t: "throws k = None" by (simp add: canon_ok_def)
    show ?thesis
      by (rule via [of "[Finish k (outs k), Tick, Tick]" "c(k := outs k)"])
         (simp_all add: Awaiting
            finish_awaiting [where k=k and n=n and throws=throws, OF k t]
            tick_adopting [where k=k and n=n and throws=throws, OF k t]
            tick_chaining [where k=k and n=n and throws=throws, OF k]
            del: step.simps)
  next
    case Adopting
    with assms have t: "throws k = None" by (simp add: canon_ok_def)
    show ?thesis
      by (rule via [of "[Tick, Tick]" c])
         (simp_all add: Adopting
            tick_adopting [where k=k and n=n and throws=throws, OF k t]
            tick_chaining [where k=k and n=n and throws=throws, OF k]
            del: step.simps)
  next
    case Chaining
    show ?thesis
      by (rule via [of "[Tick]" c])
         (simp_all add: Chaining tick_chaining [where k=k and n=n and throws=throws, OF k]
            del: step.simps)
  qed
qed

text \<open>
  Claim C1. Take any sequence of steps of the system: calls of \<^verbatim>\<open>enqueue\<close>, runs of jobs
  and completions of executing tasks, in any order, whatever the tasks' outcomes
  (\<open>throws\<close> and the outcomes of the completions are arbitrary, so any task may reject).
  Number the tasks in the order in which they were enqueued. Then in the state reached:
  \<^item> the trace reads \<open>Started 1\<close>, \<open>Finished 1\<close>, \<open>Started 2\<close>, \<open>Finished 2\<close>, ...: tasks
    execute in submission order and a task starts only when its predecessor has finished,
    so at most one executes at a time;
  \<^item> the number of enqueued tasks is the number of calls of \<^verbatim>\<open>enqueue\<close>;
  \<^item> a handle that is settled is settled with the outcome with which its own task
    finished, and that task finished with no other outcome;
  \<^item> if no job is pending and no task is executing then the handle of every enqueued
    task is settled: no task is left behind, whatever happened to the tasks before it;
  \<^item> and from the state reached, running jobs and letting each executing task finish
    (with the outcome \<open>outs\<close> gives it) leads to a state in which every enqueued task
    has started and finished and its handle is settled with its outcome.
\<close>

theorem serial_queue_in_order_and_live:
  "serial_from 1 (trace (exec throws acts))
   \<and> enqueued (exec throws acts) = length (filter (\<lambda>a. a = Enqueue) acts)
   \<and> (promises (exec throws acts) (Run i) = Some (Settled v) \<longrightarrow>
        Started i \<in> set (trace (exec throws acts))
        \<and> (\<forall>v'. Finished i v' \<in> set (trace (exec throws acts)) \<longleftrightarrow> v' = v))
   \<and> (jobs (exec throws acts) = []
        \<and> (\<forall>j. Started j \<in> set (trace (exec throws acts))
                 \<longrightarrow> (\<exists>u. Finished j u \<in> set (trace (exec throws acts))))
        \<longrightarrow> (\<forall>j. 1 \<le> j \<and> j \<le> enqueued (exec throws acts)
                   \<longrightarrow> (\<exists>u. promises (exec throws acts) (Run j) = Some (Settled u))))
   \<and> (\<exists>rest. list_all (is_progress outs) rest
        \<and> jobs (exec throws (acts @ rest)) = []
        \<and> enqueued (exec throws (acts @ rest)) = enqueued (exec throws acts)
        \<and> (\<forall>j. 1 \<le> j \<and> j \<le> enqueued (exec throws acts) \<longrightarrow>
              (\<exists>u. promises (exec throws (acts @ rest)) (Run j) = Some (Settled u)
                   \<and> Started j \<in> set (trace (exec throws (acts @ rest)))
                   \<and> Finished j u \<in> set (trace (exec throws (acts @ rest))))))"
proof -
  from reachable_canon [of throws acts] obtain n k ph c where
    ok: "canon_ok throws n k ph" and st: "exec throws acts = canon throws n k ph c"
    and n: "n = length (filter (\<lambda>a. a = Enqueue) acts)" by blast
  from ok have k: "1 \<le> k" "k \<le> Suc n" by (simp_all add: canon_ok_def)
  have order: "serial_from 1 (trace (exec throws acts))"
    using serial_canon_trace [OF k(1), of throws ph c] by (simp add: st canon_def)
  have count: "enqueued (exec throws acts) = length (filter (\<lambda>a. a = Enqueue) acts)"
    by (simp add: st canon_def n)
  have handle: "Started i \<in> set (trace (exec throws acts))
        \<and> (\<forall>v'. Finished i v' \<in> set (trace (exec throws acts)) \<longleftrightarrow> v' = v)"
    if "promises (exec throws acts) (Run i) = Some (Settled v)"
  proof -
    from that have "canon_promises throws n k ph c (Run i) = Some (Settled v)"
      by (simp add: st canon_def)
    then have r: "v = outcome_of throws c i" "1 \<le> i" "i < k \<or> (i = k \<and> ph = Chaining)"
      by (simp_all add: run_settled_canon)
    then show ?thesis
      by (auto simp: st canon_def started_in_canon_trace finished_in_canon_trace)
  qed
  have idle: "\<forall>j. 1 \<le> j \<and> j \<le> enqueued (exec throws acts)
                   \<longrightarrow> (\<exists>u. promises (exec throws acts) (Run j) = Some (Settled u))"
    if quiet: "jobs (exec throws acts) = []"
      and none: "\<forall>j. Started j \<in> set (trace (exec throws acts))
                 \<longrightarrow> (\<exists>u. Finished j u \<in> set (trace (exec throws acts)))"
  proof -
    from quiet have "canon_jobs throws n k ph c = []" by (simp add: st canon_def)
    then have "(ph = Scheduled \<and> \<not> k \<le> n) \<or> ph = Awaiting"
      by (cases ph) (simp_all add: canon_jobs_def split: if_splits)
    moreover have "ph \<noteq> Awaiting"
    proof
      assume a: "ph = Awaiting"
      then have "Started k \<in> set (trace (exec throws acts))"
        by (simp add: st canon_def started_in_canon_trace)
      with none obtain u where "Finished k u \<in> set (trace (exec throws acts))" by blast
      with a show False by (simp add: st canon_def finished_in_canon_trace)
    qed
    ultimately have "k = Suc n" using k(2) by auto
    then show ?thesis by (simp add: st canon_def run_settled_canon)
  qed
  from drain_canon [OF ok, of outs c] obtain rest outs' where
    p: "list_all (is_progress outs) rest"
    and f: "foldl (step throws) (canon throws n k ph c) rest
              = canon throws n (Suc n) Scheduled outs'" by blast
  have fin: "exec throws (acts @ rest) = canon throws n (Suc n) Scheduled outs'"
    by (simp add: exec_append st f)
  have live: "\<exists>rest. list_all (is_progress outs) rest
        \<and> jobs (exec throws (acts @ rest)) = []
        \<and> enqueued (exec throws (acts @ rest)) = enqueued (exec throws acts)
        \<and> (\<forall>j. 1 \<le> j \<and> j \<le> enqueued (exec throws acts) \<longrightarrow>
              (\<exists>u. promises (exec throws (acts @ rest)) (Run j) = Some (Settled u)
                   \<and> Started j \<in> set (trace (exec throws (acts @ rest)))
                   \<and> Finished j u \<in> set (trace (exec throws (acts @ rest)))))"
  proof (intro exI conjI)
    show "list_all (is_progress outs) rest" by (rule p)
    show "jobs (exec throws (acts @ rest)) = []"
      by (simp add: fin canon_def canon_jobs_def)
    show "enqueued (exec throws (acts @ rest)) = enqueued (exec throws acts)"
      by (simp add: fin st canon_def)
    show "\<forall>j. 1 \<le> j \<and> j \<le> enqueued (exec throws acts) \<longrightarrow>
              (\<exists>u. promises (exec throws (acts @ rest)) (Run j) = Some (Settled u)
                   \<and> Started j \<in> set (trace (exec throws (acts @ rest)))
                   \<and> Finished j u \<in> set (trace (exec throws (acts @ rest))))"
      by (auto simp: fin st canon_def run_settled_canon started_in_canon_trace
            finished_in_canon_trace)
  qed
  from order count handle idle live show ?thesis by blast
qed

lemma example_acts_state:
  "trace (exec (\<lambda>_. None) example_acts)
     = [Started 1, Finished 1 (RejectedWith (Some ''boom'')),
        Started 2, Finished 2 (Fulfilled (Some ''ok''))]
   \<and> promises (exec (\<lambda>_. None) example_acts) (Run 1)
       = Some (Settled (RejectedWith (Some ''boom'')))
   \<and> promises (exec (\<lambda>_. None) example_acts) (Run 2)
       = Some (Settled (Fulfilled (Some ''ok'')))
   \<and> jobs (exec (\<lambda>_. None) example_acts) = []"
  by (simp add: exec_def example_acts_def queue_init_def enqueue_def settle_def
        then_react_def new_promise_def Let_def)

theorem serial_queue_in_order_and_live_witness:
  "promises (exec (\<lambda>_. None) example_acts) (Run 2) = Some (Settled (Fulfilled (Some ''ok'')))
   \<and> Started 2 \<in> set (trace (exec (\<lambda>_. None) example_acts))
   \<and> Finished 2 (Fulfilled (Some ''ok'')) \<in> set (trace (exec (\<lambda>_. None) example_acts))
   \<and> Finished 1 (RejectedWith (Some ''boom'')) \<in> set (trace (exec (\<lambda>_. None) example_acts))
   \<and> (\<exists>u. promises (exec (\<lambda>_. None) example_acts) (Run 1) = Some (Settled u))"
proof -
  let ?st = "exec (\<lambda>_. None) example_acts"
  have quiet: "jobs ?st = []" using example_acts_state by simp
  have none: "\<forall>j. Started j \<in> set (trace ?st) \<longrightarrow> (\<exists>u. Finished j u \<in> set (trace ?st))"
    using example_acts_state by auto
  have first: "Finished 1 (RejectedWith (Some ''boom'')) \<in> set (trace ?st)"
    using example_acts_state by simp
  have handle: "promises ?st (Run 2) = Some (Settled (Fulfilled (Some ''ok'')))"
    using example_acts_state by simp
  have two: "length (filter (\<lambda>a. a = Enqueue) example_acts) = 2"
    by (simp add: example_acts_def)
  note inst = serial_queue_in_order_and_live
         [of "\<lambda>_. None" example_acts 2 "Fulfilled (Some ''ok'')" "\<lambda>_. Fulfilled None"]
  from inst handle have a: "Started 2 \<in> set (trace ?st)
      \<and> Finished 2 (Fulfilled (Some ''ok'')) \<in> set (trace ?st)"
    by blast
  from inst two have "enqueued ?st = 2" by simp
  with inst quiet none have "\<exists>u. promises ?st (Run 1) = Some (Settled u)"
    by auto
  with a handle first show ?thesis by blast
qed

end
